theory Spec2Isabelle
  imports Main "HOL-Library.Word" "HOL-Library.Sublist"
begin

section \<open>The diagnostic verifier of lib/Frontend/DiagnosticVerifier.cpp\<close>

text \<open>
  A shallow embedding of \<^verbatim>\<open>DiagnosticVerifier.cpp\<close>. Pointers into the buffer under
  verification are byte offsets from the start of that buffer (\<open>nat\<close>); \<open>unsigned\<close>
  values are \<open>32 word\<close>; \<open>size_t\<close> indices are \<open>nat\<close> and the result \<open>npos\<close> of a
  search is \<open>None\<close>. An \<^verbatim>\<open>assert\<close> that fails is the error value \<open>AssertionFailed\<close>
  (assertions are taken as compiled in).
\<close>

subsection \<open>Data\<close>

datatype DiagKind = DK_Error | DK_Warning | DK_Note

datatype error = AssertionFailed

text \<open>\<^verbatim>\<open>llvm::SMFixIt\<close>: a range of the buffer and the text that replaces it.\<close>

record SMFixIt =
  RangeStart :: nat
  RangeEnd :: nat
  getText :: string

text \<open>\<^verbatim>\<open>llvm::SMDiagnostic\<close> as captured by \<^verbatim>\<open>addDiagnostic\<close>; \<open>getLineNo\<close> is a C++ \<open>int\<close>.\<close>

record SMDiagnostic =
  getFilename :: string
  getLineNo :: int
  getKind :: DiagKind
  getMessage :: string
  getLoc :: nat
  getFixIts :: "SMFixIt list"

text \<open>
  The diagnostics queued in \<^verbatim>\<open>Errors\<close>. \<^verbatim>\<open>addError\<close> builds each with
  \<^verbatim>\<open>SM.GetMessage(loc, DK_Error, message, {}, FixIts)\<close>; the location, the message and
  the fix-its are what the verifier decides, the rest is derived by the source manager.
\<close>

record ReportDiagnostic =
  rLoc :: nat
  rMessage :: string
  rFixIts :: "SMFixIt list"

text \<open>A \<^verbatim>\<open>StringRef\<close> into the buffer: the offset of its first byte and its bytes.\<close>

type_synonym StringRef = "nat \<times> string"

record ExpectedFixIt =
  FixitLoc :: nat
  StartCol :: "32 word"
  EndCol :: "32 word"
  Text :: string

record ExpectedDiagnosticInfo =
  Loc :: nat
  Classification :: DiagKind
  mayAppear :: bool
  MessageRange :: StringRef
  MessageStr :: string
  LineNo :: "32 word"
  Fixits :: "ExpectedFixIt list"

fun getDiagKindString :: "DiagKind \<Rightarrow> string" where
  "getDiagKindString DK_Error = ''error''"
| "getDiagKindString DK_Warning = ''warning''"
| "getDiagKindString DK_Note = ''note''"

subsection \<open>The \<^verbatim>\<open>StringRef\<close> operations the verifier calls\<close>

text \<open>\<^verbatim>\<open>startswith\<close>.\<close>

definition startswith :: "string \<Rightarrow> string \<Rightarrow> bool" where
  "startswith s p = (take (length p) s = p)"

text \<open>\<^verbatim>\<open>find(Str, From)\<close>: the first index at or after \<open>From\<close> where \<open>Str\<close> starts.\<close>

fun find_at :: "string \<Rightarrow> string \<Rightarrow> nat \<Rightarrow> nat option" where
  "find_at [] needle i = (if needle = [] then Some i else None)"
| "find_at (c # cs) needle i =
     (if startswith (c # cs) needle then Some i else find_at cs needle (Suc i))"

definition find_str :: "string \<Rightarrow> string \<Rightarrow> nat \<Rightarrow> nat option" where
  "find_str s needle From = (if length s < From then None else find_at (drop From s) needle From)"

text \<open>The first index whose character satisfies \<open>P\<close>, counted from \<open>i\<close>.\<close>

fun find_if :: "(char \<Rightarrow> bool) \<Rightarrow> string \<Rightarrow> nat \<Rightarrow> nat option" where
  "find_if P [] i = None"
| "find_if P (c # cs) i = (if P c then Some i else find_if P cs (Suc i))"

definition find_char :: "string \<Rightarrow> char \<Rightarrow> nat option" where
  "find_char s c = find_if (\<lambda>x. x = c) s 0"

definition find_first_of :: "string \<Rightarrow> string \<Rightarrow> nat option" where
  "find_first_of s chars = find_if (\<lambda>x. x \<in> set chars) s 0"

definition find_first_not_of :: "string \<Rightarrow> string \<Rightarrow> nat option" where
  "find_first_not_of s chars = find_if (\<lambda>x. x \<notin> set chars) s 0"

definition find_last_of :: "string \<Rightarrow> string \<Rightarrow> nat option" where
  "find_last_of s chars =
     (case find_if (\<lambda>x. x \<in> set chars) (rev s) 0 of
        None \<Rightarrow> None
      | Some k \<Rightarrow> Some (length s - 1 - k))"

text \<open>\<^verbatim>\<open>substr(Start)\<close> and \<^verbatim>\<open>slice(Start, End)\<close>; both clamp to the length.\<close>

definition substr :: "StringRef \<Rightarrow> nat \<Rightarrow> StringRef" where
  "substr r n = (fst r + min n (length (snd r)), drop n (snd r))"

definition substr_n :: "StringRef \<Rightarrow> nat \<Rightarrow> nat \<Rightarrow> StringRef" where
  "substr_n r start n = (fst r + min start (length (snd r)), take n (drop start (snd r)))"

definition slice :: "StringRef \<Rightarrow> nat \<Rightarrow> nat \<Rightarrow> StringRef" where
  "slice r start end = (fst r + min start (length (snd r)), take (end - start) (drop start (snd r)))"

text \<open>\<^verbatim>\<open>substr\<close> of the result of a search: \<open>npos\<close> is clamped to the length.\<close>

definition substr_npos :: "StringRef \<Rightarrow> nat option \<Rightarrow> StringRef" where
  "substr_npos r p = (case p of None \<Rightarrow> substr r (length (snd r)) | Some i \<Rightarrow> substr r i)"

text \<open>\<^verbatim>\<open>ltrim\<close>, \<^verbatim>\<open>rtrim\<close>, \<^verbatim>\<open>trim\<close>; their default set is space, \<open>\t \n \v \f \r\<close>.\<close>

definition whitespace :: string where
  "whitespace = [CHR '' '', CHR 0x09, CHR 0x0A, CHR 0x0B, CHR 0x0C, CHR 0x0D]"

definition space_tab :: string where
  "space_tab = [CHR '' '', CHR 0x09]"

definition ltrim :: "string \<Rightarrow> StringRef \<Rightarrow> StringRef" where
  "ltrim chars r =
     (fst r + length (takeWhile (\<lambda>c. c \<in> set chars) (snd r)),
      dropWhile (\<lambda>c. c \<in> set chars) (snd r))"

definition rtrim :: "string \<Rightarrow> StringRef \<Rightarrow> StringRef" where
  "rtrim chars r = (fst r, rev (dropWhile (\<lambda>c. c \<in> set chars) (rev (snd r))))"

definition trim :: "string \<Rightarrow> StringRef \<Rightarrow> StringRef" where
  "trim chars r = rtrim chars (ltrim chars r)"

subsection \<open>\<^verbatim>\<open>getColumnNumber\<close>\<close>

text \<open>
  The first assertion (\<open>loc\<close> is not before the buffer) holds of every offset; the second
  is the bound on \<open>off\<close>. The \<open>size_t\<close> result is cast to \<open>unsigned\<close>.
\<close>

definition getColumnNumber :: "string \<Rightarrow> nat \<Rightarrow> error + 32 word" where
  "getColumnNumber buffer off =
     (if \<not> off \<le> length buffer then Inl AssertionFailed
      else
        let UpToLoc = snd (slice (0, buffer) 0 off);
            ColumnNo = length UpToLoc
        in case find_last_of UpToLoc [CHR 0x0D, CHR 0x0A] of
             None \<Rightarrow> Inr (of_nat ColumnNo)
           | Some NewlinePos \<Rightarrow> Inr (of_nat (ColumnNo - NewlinePos)))"

subsection \<open>\<^verbatim>\<open>autoApplyFixes\<close>\<close>

text \<open>
  The loop over the sorted fix-its, with \<open>LastPos\<close> and \<open>Result\<close> as its state.
  \<^verbatim>\<open>Result.append(LastPos, Start)\<close> copies the bytes from \<open>LastPos\<close> up to \<open>Start\<close>.
  The ranges are those of the fix-its \<^verbatim>\<open>verifyFile\<close> attaches to its own errors, which
  lie inside the buffer; for a range outside it the C++ reads out of bounds, which
  \<open>bytes\<close> does not model.
\<close>

definition bytes :: "string \<Rightarrow> nat \<Rightarrow> nat \<Rightarrow> string" where
  "bytes buffer a b = take (b - a) (drop a buffer)"

fun applyFixIts :: "string \<Rightarrow> SMFixIt list \<Rightarrow> nat \<Rightarrow> string \<Rightarrow> error + string" where
  "applyFixIts buffer [] LastPos Result = Inr (Result @ bytes buffer LastPos (length buffer))"
| "applyFixIts buffer (fix # rest) LastPos Result =
     (if \<not> LastPos \<le> RangeStart fix then Inl AssertionFailed
      else applyFixIts buffer rest (RangeEnd fix)
             (Result @ bytes buffer LastPos (RangeStart fix) @ getText fix))"

text \<open>
  The result is what is written to the backing file: \<open>None\<close> when the function returns
  without opening it. \<^verbatim>\<open>std::sort\<close> by start location is taken as the stable sort.
\<close>

definition autoApplyFixes :: "string \<Rightarrow> ReportDiagnostic list \<Rightarrow> error + string option" where
  "autoApplyFixes buffer diags =
     (let FixIts = concat (map rFixIts diags)
      in if FixIts = [] then Inr None
         else case applyFixIts buffer (sort_key RangeStart FixIts) 0 [] of
                Inl e \<Rightarrow> Inl e
              | Inr Result \<Rightarrow> Inr (Some Result))"

subsection \<open>Library functions the verifier calls\<close>

text \<open>
  \<^verbatim>\<open>StringRef::getAsInteger(10, Result)\<close> of LLVM: the string must be a non-empty run of
  decimal digits whose value fits in 64 bits, and the value must fit the result type;
  for a signed result a leading \<open>-\<close> is allowed. \<open>None\<close> is the failure return.
\<close>

fun digitsValue :: "string \<Rightarrow> int \<Rightarrow> int option" where
  "digitsValue [] acc = Some acc"
| "digitsValue (c # cs) acc =
     (if 48 \<le> (of_char c :: int) \<and> (of_char c :: int) \<le> 57
      then (let r = acc * 10 + (of_char c - 48)
            in if 2 ^ 64 \<le> r then None else digitsValue cs r)
      else None)"

definition getAsUnsignedInteger :: "string \<Rightarrow> int option" where
  "getAsUnsignedInteger s = (if s = [] then None else digitsValue s 0)"

definition getAsUnsigned :: "string \<Rightarrow> 32 word option" where
  "getAsUnsigned s =
     (case getAsUnsignedInteger s of
        None \<Rightarrow> None
      | Some v \<Rightarrow> if v < 2 ^ 32 then Some (of_int v) else None)"

definition getAsInt :: "string \<Rightarrow> int option" where
  "getAsInt s =
     (if s = [] \<or> hd s \<noteq> CHR ''-''
      then (case getAsUnsignedInteger s of
              None \<Rightarrow> None
            | Some v \<Rightarrow> if v < 2 ^ 31 then Some v else None)
      else (case getAsUnsignedInteger (tl s) of
              None \<Rightarrow> None
            | Some v \<Rightarrow> if v \<le> 2 ^ 31 then Some (- v) else None))"

text \<open>
  \<^verbatim>\<open>SM.getLineAndColumn(Loc, BufferID).first\<close> of the LLVM source manager: one more than
  the number of newline characters before the position.
\<close>

definition getLineNumber :: "string \<Rightarrow> nat \<Rightarrow> nat" where
  "getLineNumber InputFile off = Suc (length (filter (\<lambda>c. c = CHR 0x0A) (take off InputFile)))"

text \<open>\<^verbatim>\<open>raw_ostream << unsigned\<close>: the decimal digits.\<close>

fun decimal :: "nat \<Rightarrow> string" where
  "decimal n =
     (if n < 10 then [char_of (48 + n)]
      else decimal (n div 10) @ [char_of (48 + n mod 10)])"

declare decimal.simps [simp del]

text \<open>\<^verbatim>\<open>vector::erase(begin() + i)\<close>.\<close>

definition erase :: "'a list \<Rightarrow> nat \<Rightarrow> 'a list" where
  "erase xs i = take i xs @ drop (Suc i) xs"

definition addError :: "ReportDiagnostic list \<Rightarrow> nat \<Rightarrow> string \<Rightarrow> SMFixIt list \<Rightarrow> ReportDiagnostic list" where
  "addError Errors loc message FixIts =
     Errors @ [\<lparr>rLoc = loc, rMessage = message, rFixIts = FixIts\<rparr>]"

subsection \<open>\<^verbatim>\<open>findDiagnostic\<close> and \<^verbatim>\<open>checkForFixIt\<close>\<close>

text \<open>The iterator returned is the index into \<^verbatim>\<open>CapturedDiagnostics\<close>; \<open>None\<close> is \<open>end()\<close>.\<close>

fun findDiagnostic :: "ExpectedDiagnosticInfo \<Rightarrow> string \<Rightarrow> SMDiagnostic list \<Rightarrow> nat option" where
  "findDiagnostic Expected BufferName [] = None"
| "findDiagnostic Expected BufferName (I # rest) =
     (if getLineNo I \<noteq> sint (LineNo Expected) \<or> getFilename I \<noteq> BufferName
      then map_option Suc (findDiagnostic Expected BufferName rest)
      else if getKind I \<noteq> Classification Expected \<or>
              find_str (getMessage I) (MessageStr Expected) 0 = None
      then map_option Suc (findDiagnostic Expected BufferName rest)
      else Some 0)"

fun checkForFixIts :: "ExpectedFixIt \<Rightarrow> SMFixIt list \<Rightarrow> string \<Rightarrow> error + bool" where
  "checkForFixIts Expected [] buffer = Inr False"
| "checkForFixIts Expected (ActualFixIt # rest) buffer =
     (if getText ActualFixIt \<noteq> Text Expected then checkForFixIts Expected rest buffer
      else
        (case getColumnNumber buffer (RangeStart ActualFixIt) of
           Inl e \<Rightarrow> Inl e
         | Inr sc \<Rightarrow>
             if sc \<noteq> StartCol Expected then checkForFixIts Expected rest buffer
             else
               (case getColumnNumber buffer (RangeEnd ActualFixIt) of
                  Inl e \<Rightarrow> Inl e
                | Inr ec \<Rightarrow>
                    if ec \<noteq> EndCol Expected then checkForFixIts Expected rest buffer
                    else Inr True)))"

definition checkForFixIt :: "ExpectedFixIt \<Rightarrow> SMDiagnostic \<Rightarrow> string \<Rightarrow> error + bool" where
  "checkForFixIt Expected D buffer = checkForFixIts Expected (getFixIts D) buffer"

text \<open>The text streamed for the actual fix-its of the found diagnostic.\<close>

fun actualFixItsText :: "SMFixIt list \<Rightarrow> string \<Rightarrow> error + string" where
  "actualFixItsText [] InputFile = Inr []"
| "actualFixItsText (ActualFixIt # rest) InputFile =
     (case getColumnNumber InputFile (RangeStart ActualFixIt) of
        Inl e \<Rightarrow> Inl e
      | Inr sc \<Rightarrow>
          (case getColumnNumber InputFile (RangeEnd ActualFixIt) of
             Inl e \<Rightarrow> Inl e
           | Inr ec \<Rightarrow>
               (case actualFixItsText rest InputFile of
                  Inl e \<Rightarrow> Inl e
                | Inr others \<Rightarrow>
                    Inr ('' {{'' @ decimal (unat sc) @ ''-'' @ decimal (unat ec) @ ''='' @
                         getText ActualFixIt @ ''}}'' @ others))))"

definition fixItNotSeenMessage :: "SMDiagnostic \<Rightarrow> string \<Rightarrow> error + string" where
  "fixItNotSeenMessage FoundDiagnostic InputFile =
     (if getFixIts FoundDiagnostic = [] then Inr ''expected fix-it not seen''
      else case actualFixItsText (getFixIts FoundDiagnostic) InputFile of
        Inl e \<Rightarrow> Inl e
      | Inr t \<Rightarrow> Inr (''expected fix-it not seen'' @ ''; actual fix-its:'' @ t))"

text \<open>The loop \<^verbatim>\<open>for (auto fixit : expected.Fixits)\<close> of the first matching loop.\<close>

fun verifyFixits ::
  "ExpectedFixIt list \<Rightarrow> SMDiagnostic \<Rightarrow> string \<Rightarrow> ReportDiagnostic list \<Rightarrow>
   error + ReportDiagnostic list" where
  "verifyFixits [] FoundDiagnostic InputFile Errors = Inr Errors"
| "verifyFixits (fixit # rest) FoundDiagnostic InputFile Errors =
     (case checkForFixIt fixit FoundDiagnostic InputFile of
        Inl e \<Rightarrow> Inl e
      | Inr True \<Rightarrow> verifyFixits rest FoundDiagnostic InputFile Errors
      | Inr False \<Rightarrow>
          (case fixItNotSeenMessage FoundDiagnostic InputFile of
             Inl e \<Rightarrow> Inl e
           | Inr Message \<Rightarrow>
               verifyFixits rest FoundDiagnostic InputFile
                 (addError Errors (FixitLoc fixit) Message [])))"

lemma findDiagnostic_less:
  "findDiagnostic Expected BufferName CD = Some k \<Longrightarrow> k < length CD"
  by (induction CD arbitrary: k) (auto split: if_splits)

lemma length_erase: "k < length xs \<Longrightarrow> length (erase xs k) = length xs - 1"
  by (simp add: erase_def)

subsection \<open>The three matching loops of \<^verbatim>\<open>verifyFile\<close>\<close>

text \<open>
  "Make sure all the expected diagnostics appeared": the loop counts \<open>i\<close> down from the
  size of \<^verbatim>\<open>ExpectedDiagnostics\<close>; a found \<open>mayAppear\<close> expectation is processed again.
  The index read is always inside the vector: \<open>i\<close> starts at the size, and the vector
  only shrinks by erasing at an index that the loop then leaves behind.
\<close>

function matchExpected ::
  "string \<Rightarrow> string \<Rightarrow> nat \<Rightarrow> ExpectedDiagnosticInfo list \<Rightarrow> SMDiagnostic list \<Rightarrow>
   ReportDiagnostic list \<Rightarrow>
   error + (ExpectedDiagnosticInfo list \<times> SMDiagnostic list \<times> ReportDiagnostic list)" where
  "matchExpected InputFile BufferName 0 ED CD Errors = Inr (ED, CD, Errors)"
| "matchExpected InputFile BufferName (Suc i) ED CD Errors =
     (case findDiagnostic (ED ! i) BufferName CD of
        None \<Rightarrow>
          if mayAppear (ED ! i)
          then matchExpected InputFile BufferName i (erase ED i) CD Errors
          else matchExpected InputFile BufferName i ED CD Errors
      | Some k \<Rightarrow>
          (case verifyFixits (Fixits (ED ! i)) (CD ! k) InputFile Errors of
             Inl e \<Rightarrow> Inl e
           | Inr Errors' \<Rightarrow>
               if mayAppear (ED ! i)
               then matchExpected InputFile BufferName (Suc i) ED (erase CD k) Errors'
               else matchExpected InputFile BufferName i (erase ED i) (erase CD k) Errors'))"
  by pat_completeness auto
termination
  by (relation "measure (\<lambda>(InputFile, BufferName, i, ED, CD, Errors). i + length CD)")
     (auto dest!: findDiagnostic_less simp: length_erase)

declare matchExpected.simps [simp del]

text \<open>The inner loop of the second matching loop: file, line and classification only.\<close>

fun findIncorrect :: "ExpectedDiagnosticInfo \<Rightarrow> string \<Rightarrow> SMDiagnostic list \<Rightarrow> nat option" where
  "findIncorrect expected BufferName [] = None"
| "findIncorrect expected BufferName (I # rest) =
     (if getLineNo I \<noteq> sint (LineNo expected) \<or> getFilename I \<noteq> BufferName \<or>
         getKind I \<noteq> Classification expected
      then map_option Suc (findIncorrect expected BufferName rest)
      else Some 0)"

text \<open>"Check to see if we have any incorrect diagnostics."\<close>

fun matchIncorrect ::
  "string \<Rightarrow> nat \<Rightarrow> ExpectedDiagnosticInfo list \<Rightarrow> SMDiagnostic list \<Rightarrow>
   ReportDiagnostic list \<Rightarrow>
   ExpectedDiagnosticInfo list \<times> SMDiagnostic list \<times> ReportDiagnostic list" where
  "matchIncorrect BufferName 0 ED CD Errors = (ED, CD, Errors)"
| "matchIncorrect BufferName (Suc i) ED CD Errors =
     (case findIncorrect (ED ! i) BufferName CD of
        None \<Rightarrow> matchIncorrect BufferName i ED CD Errors
      | Some k \<Rightarrow>
          let StartLoc = fst (MessageRange (ED ! i));
              EndLoc = fst (MessageRange (ED ! i)) + length (snd (MessageRange (ED ! i)));
              fixIt = \<lparr>RangeStart = StartLoc, RangeEnd = EndLoc, getText = getMessage (CD ! k)\<rparr>
          in matchIncorrect BufferName i (erase ED i) (erase CD k)
               (addError Errors (fst (MessageRange (ED ! i))) ''incorrect message found'' [fixIt]))"

text \<open>"Diagnose expected diagnostics that didn't appear."\<close>

definition notProduced :: "ExpectedDiagnosticInfo \<Rightarrow> ReportDiagnostic" where
  "notProduced expected =
     \<lparr>rLoc = Loc expected,
      rMessage = ''expected '' @ getDiagKindString (Classification expected) @ '' not produced'',
      rFixIts = []\<rparr>"

text \<open>"Verify that there are no diagnostics (in MemoryBuffer) left in the list."\<close>

definition unexpected :: "SMDiagnostic \<Rightarrow> ReportDiagnostic" where
  "unexpected D =
     \<lparr>rLoc = getLoc D,
      rMessage = ''unexpected '' @ getDiagKindString (getKind D) @ '' produced: '' @ getMessage D,
      rFixIts = []\<rparr>"

fun reportUnexpected :: "string \<Rightarrow> SMDiagnostic list \<Rightarrow> ReportDiagnostic list \<Rightarrow> ReportDiagnostic list" where
  "reportUnexpected BufferName [] Errors = Errors"
| "reportUnexpected BufferName (D # rest) Errors =
     (if getFilename D \<noteq> BufferName then reportUnexpected BufferName rest Errors
      else reportUnexpected BufferName rest (Errors @ [unexpected D]))"

subsection \<open>The scanning loop of \<^verbatim>\<open>verifyFile\<close>\<close>

text \<open>
  \<^verbatim>\<open>Lexer::getEncodedStringSegment\<close> is not part of this file: the scanner takes it as
  the parameter \<open>decode\<close>.
\<close>

definition quoted :: "string \<Rightarrow> string" where
  "quoted s = [CHR 0x27] @ s @ [CHR 0x27]"

record ScanState =
  Errors :: "ReportDiagnostic list"
  PrevExpectedContinuationLine :: "32 word"
  ExpectedDiagnostics :: "ExpectedDiagnosticInfo list"

text \<open>The keyword after the match; \<open>None\<close> is the \<^verbatim>\<open>continue\<close> of the last \<^verbatim>\<open>else\<close>.\<close>

definition matchClassification :: "StringRef \<Rightarrow> (DiagKind \<times> StringRef) option" where
  "matchClassification MatchStart =
     (if startswith (snd MatchStart) ''expected-note''
      then Some (DK_Note, substr MatchStart (length ''expected-note''))
      else if startswith (snd MatchStart) ''expected-warning''
      then Some (DK_Warning, substr MatchStart (length ''expected-warning''))
      else if startswith (snd MatchStart) ''expected-error''
      then Some (DK_Error, substr MatchStart (length ''expected-error''))
      else None)"

text \<open>
  The line offset clause. \<open>Inl (loc, message)\<close> is \<^verbatim>\<open>addError(loc, message); continue\<close>;
  otherwise the new \<^verbatim>\<open>MatchStart\<close>, the new \<^verbatim>\<open>TextStartIdx\<close> and \<^verbatim>\<open>LineOffset\<close>.
  \<^verbatim>\<open>MatchStart[0]\<close> and \<^verbatim>\<open>MatchStart[1]\<close> are inside the string, as \<open>{{\<close> was found at
  \<open>TextStartIdx > 0\<close>.
\<close>

definition parseLineOffset :: "StringRef \<Rightarrow> nat \<Rightarrow> (nat \<times> string) + (StringRef \<times> nat \<times> int)" where
  "parseLineOffset MatchStart TextStartIdx =
     (if 0 < TextStartIdx \<and> snd MatchStart ! 0 = CHR ''@'' then
        if snd MatchStart ! 1 \<noteq> CHR ''+'' \<and> snd MatchStart ! 1 \<noteq> CHR ''-''
        then Inl (fst MatchStart, ''expected '' @ quoted ''+'' @ ''/'' @ quoted ''-'' @ '' for line offset'')
        else
          let Offs = (if snd MatchStart ! 1 = CHR ''+''
                      then rtrim whitespace (slice MatchStart 2 TextStartIdx)
                      else rtrim whitespace (slice MatchStart 1 TextStartIdx));
              SpaceIndex = find_char (snd Offs) CHR '' '';
              (MatchStart', TextStartIdx', Offs') =
                (case SpaceIndex of
                   None \<Rightarrow> (substr MatchStart TextStartIdx, 0, Offs)
                 | Some si \<Rightarrow>
                     if si < TextStartIdx
                     then (let Delta = length (snd Offs) - si
                           in (substr MatchStart (TextStartIdx - Delta), Delta, slice Offs 0 si))
                     else (substr MatchStart TextStartIdx, 0, Offs))
          in (case getAsInt (snd Offs') of
                None \<Rightarrow> Inl (fst MatchStart', ''expected line offset before '' @ quoted ''{{'')
              | Some LineOffset \<Rightarrow> Inr (MatchStart', TextStartIdx', LineOffset))
      else Inr (MatchStart, TextStartIdx, 0))"

text \<open>
  The match count clause: \<open>mayAppear\<close>, \<open>Count\<close> and \<^verbatim>\<open>MatchStart\<close> resynced to the \<open>{{\<close>.
\<close>

definition parseCount :: "StringRef \<Rightarrow> nat \<Rightarrow> (nat \<times> string) + (bool \<times> 32 word \<times> StringRef)" where
  "parseCount MatchStart TextStartIdx =
     (if 0 < TextStartIdx then
        let CountStr = trim whitespace (substr_n MatchStart 0 TextStartIdx)
        in if snd CountStr = ''*''
           then Inr (True, 1, substr MatchStart TextStartIdx)
           else (case getAsUnsigned (snd CountStr) of
                   None \<Rightarrow> Inl (fst MatchStart, ''expected match count before '' @ quoted ''{{'')
                 | Some Count \<Rightarrow>
                     if Count = 0
                     then Inl (fst MatchStart,
                               ''expected positive match count before '' @ quoted ''{{'')
                     else Inr (False, Count, substr MatchStart TextStartIdx))
      else Inr (False, 1, MatchStart))"

text \<open>"Allow for close braces to appear in the replacement text."\<close>

function skipCloseBraces :: "string \<Rightarrow> nat \<Rightarrow> nat" where
  "skipCloseBraces ExtraChecks EndLoc =
     (if EndLoc + 2 < length ExtraChecks \<and> ExtraChecks ! (EndLoc + 2) = CHR ''}''
      then skipCloseBraces ExtraChecks (Suc EndLoc)
      else EndLoc)"
  by pat_completeness auto
termination
  by (relation "measure (\<lambda>(ExtraChecks, EndLoc). length ExtraChecks - EndLoc)") auto

declare skipCloseBraces.simps [simp del]

text \<open>"Translate literal \<open>\n\<close> into a newline, inefficiently."\<close>

fun translateNewlines :: "string \<Rightarrow> string" where
  "translateNewlines (c # d # rest) =
     (if c = CHR 0x5C \<and> d = CHR ''n'' then CHR 0x0A # translateNewlines rest
      else c # translateNewlines (d # rest))"
| "translateNewlines cs = cs"

lemma length_ltrim_le: "length (snd (ltrim chars r)) \<le> length (snd r)"
  by (simp add: ltrim_def length_dropWhile_le)

lemma scanFixits_shorter:
  assumes "startswith (snd ExtraChecks) ''{{''" and "2 \<le> n"
  shows "length (snd (ltrim chars (substr ExtraChecks n))) < length (snd ExtraChecks)"
proof -
  from assms(1) have "2 \<le> length (snd ExtraChecks)"
    by (cases "snd ExtraChecks" rule: list.exhaust; cases "tl (snd ExtraChecks)")
       (auto simp: startswith_def)
  with assms(2) have "length (snd (substr ExtraChecks n)) < length (snd ExtraChecks)"
    by (simp add: substr_def)
  with length_ltrim_le [of chars "substr ExtraChecks n"] show ?thesis
    by simp
qed

text \<open>
  "Parse the pieces of the fix-it": \<open>Inl (loc, message)\<close> is
  \<^verbatim>\<open>addError(loc, message); continue\<close>, \<open>Inr\<close> the fix-it pushed.
\<close>

definition parseFixIt :: "StringRef \<Rightarrow> nat \<Rightarrow> (nat \<times> string) + ExpectedFixIt" where
  "parseFixIt FixItStr EndLoc =
     (case find_char (snd FixItStr) CHR ''-'' of
        None \<Rightarrow> Inl (fst FixItStr, ''expected '' @ quoted ''-'' @ '' in fix-it verification'')
      | Some MinusLoc \<Rightarrow>
          (let StartColStr = slice FixItStr 0 MinusLoc;
               AfterMinus = substr FixItStr (MinusLoc + 1)
           in case find_char (snd AfterMinus) CHR ''='' of
             None \<Rightarrow>
               Inl (fst AfterMinus,
                    ''expected '' @ quoted ''='' @ '' after '' @ quoted ''-'' @
                    '' in fix-it verification'')
           | Some EqualLoc \<Rightarrow>
               (let EndColStr = slice AfterMinus 0 EqualLoc;
                    AfterEqual = substr AfterMinus (EqualLoc + 1)
                in case getAsUnsigned (snd StartColStr) of
                  None \<Rightarrow>
                    Inl (fst StartColStr, ''invalid column number in fix-it verification'')
                | Some sc \<Rightarrow>
                    (case getAsUnsigned (snd EndColStr) of
                       None \<Rightarrow>
                         Inl (fst EndColStr, ''invalid column number in fix-it verification'')
                     | Some ec \<Rightarrow>
                         Inr \<lparr>FixitLoc = fst StartColStr - 2,
                              StartCol = sc,
                              EndCol = ec,
                              Text = translateNewlines (snd (slice AfterEqual 0 EndLoc))\<rparr>))))"

definition noCloseMessage :: string where
  "noCloseMessage =
     ''didn'' @ [CHR 0x27] @ ''t find '' @ quoted ''}}'' @ '' to match '' @ quoted ''{{'' @
     '' in fix-it verification''"

text \<open>
  "Scan for fix-its": the \<^verbatim>\<open>while (ExtraChecks.startswith("{{"))\<close> loop; a \<^verbatim>\<open>break\<close>
  returns, a \<^verbatim>\<open>continue\<close> goes on with the clause after this one.
\<close>

function scanFixits ::
  "StringRef \<Rightarrow> ReportDiagnostic list \<Rightarrow> ExpectedFixIt list \<Rightarrow>
   ReportDiagnostic list \<times> ExpectedFixIt list" where
  "scanFixits ExtraChecks Errs Fixs =
     (if \<not> startswith (snd ExtraChecks) ''{{'' then (Errs, Fixs)
      else
        (case find_str (snd ExtraChecks) ''}}'' 0 of
           None \<Rightarrow> (addError Errs (fst ExtraChecks) noCloseMessage [], Fixs)
         | Some EndLoc0 \<Rightarrow>
             (let EndLoc = skipCloseBraces (snd ExtraChecks) EndLoc0;
                  FixItStr = slice ExtraChecks 2 EndLoc
              in if find_first_of (snd FixItStr) [CHR 0x0D, CHR 0x0A] \<noteq> None
                 then (addError Errs (fst ExtraChecks) noCloseMessage [], Fixs)
                 else
                   (case parseFixIt FixItStr EndLoc of
                      Inl (loc, message) \<Rightarrow>
                        scanFixits (ltrim whitespace (substr ExtraChecks (EndLoc + 2)))
                          (addError Errs loc message []) Fixs
                    | Inr FixIt \<Rightarrow>
                        scanFixits (ltrim whitespace (substr ExtraChecks (EndLoc + 2)))
                          Errs (Fixs @ [FixIt])))))"
  by pat_completeness auto
termination
  by (relation "measure (\<lambda>(ExtraChecks, Errs, Fixs). length (snd ExtraChecks))")
     (simp_all add: scanFixits_shorter)

declare scanFixits.simps [simp del]

text \<open>"Add the diagnostic the expected number of times."\<close>

fun pushCopies :: "nat \<Rightarrow> ExpectedDiagnosticInfo \<Rightarrow> ExpectedDiagnosticInfo list \<Rightarrow> ExpectedDiagnosticInfo list" where
  "pushCopies 0 Expected ED = ED"
| "pushCopies (Suc Count) Expected ED = pushCopies Count Expected (ED @ [Expected])"

text \<open>
  The body of the scanning loop at one occurrence \<open>Match\<close> of \<open>expected-\<close>, first
  part: from the keyword to the search for the \<open>}}\<close> that closes the message. Each
  \<^verbatim>\<open>continue\<close> is a result of its own: \<open>NotAnnotation\<close> for the one without an error,
  \<open>Malformed loc message\<close> for \<^verbatim>\<open>addError(loc, message); continue\<close>. Otherwise
  \<^verbatim>\<open>ExpectedClassification\<close>, \<^verbatim>\<open>LineOffset\<close>, \<^verbatim>\<open>mayAppear\<close>, \<^verbatim>\<open>Count\<close>, \<^verbatim>\<open>MatchStart\<close>
  (now at the \<open>{{\<close>) and \<^verbatim>\<open>End\<close>.
\<close>

datatype Annotation =
    NotAnnotation
  | Malformed nat string
  | Annotation DiagKind int bool "32 word" StringRef nat

definition noCloseMessageLine :: string where
  "noCloseMessageLine =
     ''didn'' @ [CHR 0x27] @ ''t find '' @ quoted ''}}'' @ '' to match '' @ quoted ''{{'' @
     '' in expected-warning/note/error line''"

definition parseAnnotation :: "string \<Rightarrow> nat \<Rightarrow> Annotation" where
  "parseAnnotation InputFile Match =
     (case matchClassification (substr (0, InputFile) Match) of
        None \<Rightarrow> NotAnnotation
      | Some (ExpectedClassification, MatchStart0) \<Rightarrow>
          (let MatchStart1 = substr_npos MatchStart0 (find_first_not_of (snd MatchStart0) space_tab)
           in case find_str (snd MatchStart1) ''{{'' 0 of
             None \<Rightarrow>
               Malformed (fst MatchStart1) ''expected {{ in expected-warning/note/error line''
           | Some TextStartIdx0 \<Rightarrow>
               (case parseLineOffset MatchStart1 TextStartIdx0 of
                  Inl (loc, message) \<Rightarrow> Malformed loc message
                | Inr (MatchStart2, TextStartIdx, LineOffset) \<Rightarrow>
                    (case parseCount MatchStart2 TextStartIdx of
                       Inl (loc, message) \<Rightarrow> Malformed loc message
                     | Inr (may, Count, MatchStart) \<Rightarrow>
                         (case find_str (snd MatchStart) ''}}'' 0 of
                            None \<Rightarrow> Malformed (fst MatchStart) noCloseMessageLine
                          | Some End \<Rightarrow>
                              Annotation ExpectedClassification LineOffset may Count
                                MatchStart End)))))"

text \<open>"Check if the next expected diagnostic should be in the same line."\<close>

definition continuationLine :: "StringRef \<Rightarrow> nat \<Rightarrow> 32 word \<Rightarrow> 32 word" where
  "continuationLine MatchStart End Line =
     (let AfterEnd0 = substr MatchStart (End + length ''}}'');
          AfterEnd = substr_npos AfterEnd0 (find_first_not_of (snd AfterEnd0) space_tab)
      in if startswith (snd AfterEnd) [CHR 0x5C] then Line else 0)"

text \<open>
  The whole body: the second part resolves the line, sets the continuation line, scans
  the fix-its and pushes the copies. \<^verbatim>\<open>DiagnosticLoc\<close> is the position of the match.
\<close>

definition scanMatch :: "(string \<Rightarrow> string) \<Rightarrow> string \<Rightarrow> nat \<Rightarrow> ScanState \<Rightarrow> ScanState" where
  "scanMatch decode InputFile Match st =
     (case parseAnnotation InputFile Match of
        NotAnnotation \<Rightarrow> st
      | Malformed loc message \<Rightarrow> st\<lparr>Errors := addError (Errors st) loc message []\<rparr>
      | Annotation ExpectedClassification LineOffset may Count MatchStart End \<Rightarrow>
          (let Range = slice MatchStart 2 End;
               Line = (if PrevExpectedContinuationLine st \<noteq> 0
                       then PrevExpectedContinuationLine st
                       else of_nat (getLineNumber InputFile (fst MatchStart)))
                      + of_int LineOffset;
               ExtraChecks = ltrim space_tab (substr MatchStart (End + 2));
               (Errors', Fixits') = scanFixits ExtraChecks (Errors st) [];
               Expected =
                 \<lparr>Loc = fst (substr (0, InputFile) Match),
                  Classification = ExpectedClassification,
                  mayAppear = may,
                  MessageRange = Range,
                  MessageStr = decode (snd Range),
                  LineNo = Line,
                  Fixits = Fixits'\<rparr>
           in \<lparr>Errors = Errors',
               PrevExpectedContinuationLine = continuationLine MatchStart End Line,
               ExpectedDiagnostics =
                 pushCopies (unat Count) Expected (ExpectedDiagnostics st)\<rparr>))"

lemma find_at_bounds: "find_at s needle i = Some m \<Longrightarrow> i \<le> m \<and> m \<le> i + length s"
  by (induction s arbitrary: i) (fastforce split: if_splits)+

lemma find_at_nonempty: "needle \<noteq> [] \<Longrightarrow> find_at s needle i = Some m \<Longrightarrow> m < i + length s"
  by (induction s arbitrary: i) (fastforce split: if_splits simp: startswith_def)+

lemma find_str_expected_less:
  "find_str InputFile ''expected-'' From = Some m \<Longrightarrow> From \<le> m \<and> m < length InputFile"
  using find_at_nonempty [of "''expected-''" "drop From InputFile" From m]
        find_at_bounds [of "drop From InputFile" "''expected-''" From m]
  by (auto simp: find_str_def split: if_splits)

text \<open>"Scan the memory buffer looking for expected-note/warning/error."\<close>

function scanFrom :: "(string \<Rightarrow> string) \<Rightarrow> string \<Rightarrow> nat \<Rightarrow> ScanState \<Rightarrow> ScanState" where
  "scanFrom decode InputFile From st =
     (case find_str InputFile ''expected-'' From of
        None \<Rightarrow> st
      | Some Match \<Rightarrow> scanFrom decode InputFile (Match + 1) (scanMatch decode InputFile Match st))"
  by pat_completeness auto
termination
  by (relation "measure (\<lambda>(decode, InputFile, From, st). length InputFile - From)")
     (auto dest!: find_str_expected_less)

declare scanFrom.simps [simp del]

subsection \<open>\<^verbatim>\<open>verifyFile\<close>\<close>

text \<open>
  What a call leaves behind: the errors printed (sorted by location; \<^verbatim>\<open>std::sort\<close> is
  taken as the stable sort), the captured diagnostics remaining in the verifier, the text
  written to the backing file if any, and the value returned.
\<close>

record VerifyResult =
  printed :: "ReportDiagnostic list"
  CapturedDiagnostics :: "SMDiagnostic list"
  written :: "string option"
  returned :: bool

text \<open>The part of \<^verbatim>\<open>verifyFile\<close> after the scanning loop, up to the sort.\<close>

definition matchDiagnostics ::
  "string \<Rightarrow> string \<Rightarrow> ExpectedDiagnosticInfo list \<Rightarrow> SMDiagnostic list \<Rightarrow>
   ReportDiagnostic list \<Rightarrow> error + (SMDiagnostic list \<times> ReportDiagnostic list)" where
  "matchDiagnostics InputFile BufferName Scanned CD Errs =
     (let ED = rev Scanned
      in case matchExpected InputFile BufferName (length ED) ED CD Errs of
        Inl e \<Rightarrow> Inl e
      | Inr (ED1, CD1, Errs1) \<Rightarrow>
          (let (ED2, CD2, Errs2) = matchIncorrect BufferName (length ED1) ED1 CD1 Errs1;
               Errs3 = Errs2 @ map notProduced (rev ED2)
           in Inr (CD2, reportUnexpected BufferName CD2 Errs3)))"

definition verifyFile ::
  "(string \<Rightarrow> string) \<Rightarrow> string \<Rightarrow> string \<Rightarrow> SMDiagnostic list \<Rightarrow> bool \<Rightarrow> error + VerifyResult" where
  "verifyFile decode InputFile BufferName CD shouldAutoApplyFixes =
     (let st = scanFrom decode InputFile 0
                 \<lparr>Errors = [], PrevExpectedContinuationLine = 0, ExpectedDiagnostics = []\<rparr>
      in case matchDiagnostics InputFile BufferName (ExpectedDiagnostics st) CD (Errors st) of
        Inl e \<Rightarrow> Inl e
      | Inr (CD', Errs) \<Rightarrow>
          (let Sorted = sort_key rLoc Errs
           in case (if shouldAutoApplyFixes then autoApplyFixes InputFile Sorted else Inr None) of
             Inl e \<Rightarrow> Inl e
           | Inr w \<Rightarrow>
               Inr \<lparr>printed = Sorted, CapturedDiagnostics = CD', written = w,
                    returned = (Sorted \<noteq> [])\<rparr>))"

subsection \<open>The rewriting algorithm as the specification words it\<close>

text \<open>
  With a cursor: copy the text from the cursor up to the start of the fix-it, append the
  replacement, move the cursor to the end of the fix-it; after the last fix-it copy the
  rest of the buffer. This is compared with the loop of \<^verbatim>\<open>autoApplyFixes\<close> below.
\<close>

fun spec_rewrite :: "string \<Rightarrow> nat \<Rightarrow> SMFixIt list \<Rightarrow> string" where
  "spec_rewrite buffer cursor [] = bytes buffer cursor (length buffer)"
| "spec_rewrite buffer cursor (fix # rest) =
     bytes buffer cursor (RangeStart fix) @ getText fix @ spec_rewrite buffer (RangeEnd fix) rest"


text \<open>No assertion of the loop fails from \<open>LastPos\<close> on.\<close>

fun inOrderFrom :: "nat \<Rightarrow> SMFixIt list \<Rightarrow> bool" where
  "inOrderFrom LastPos [] = True"
| "inOrderFrom LastPos (fix # rest) =
     (LastPos \<le> RangeStart fix \<and> inOrderFrom (RangeEnd fix) rest)"

text \<open>
  The two searches as the specification words them: same file identifier, same line,
  same severity and, for the first, a message that contains the decoded text.
\<close>

definition spec_matches :: "ExpectedDiagnosticInfo \<Rightarrow> string \<Rightarrow> SMDiagnostic \<Rightarrow> bool" where
  "spec_matches Expected BufferName D =
     (getFilename D = BufferName \<and> getLineNo D = sint (LineNo Expected) \<and>
      getKind D = Classification Expected \<and> sublist (MessageStr Expected) (getMessage D))"



section \<open>Properties\<close>

subsection \<open>The matching loops\<close>

lemma startswith_prefix: "startswith s p = prefix p s"
  by (auto simp: startswith_def prefix_def) (metis append_eq_conv_conj)

lemma find_at_None_iff: "(find_at s needle i = None) = (\<not> sublist needle s)"
  by (induction s arbitrary: i) (auto simp: startswith_prefix sublist_Cons_right)

lemma find_str_None_iff: "(find_str s needle 0 = None) = (\<not> sublist needle s)"
  by (simp add: find_str_def find_at_None_iff)

lemma findDiagnostic_Some_iff:
  "(findDiagnostic Expected BufferName CD = Some k) =
     (k < length CD \<and> spec_matches Expected BufferName (CD ! k) \<and>
      (\<forall>j<k. \<not> spec_matches Expected BufferName (CD ! j)))"
proof (induction CD arbitrary: k)
  case Nil
  then show ?case by simp
next
  case (Cons I rest)
  show ?case
  proof (cases "spec_matches Expected BufferName I")
    case True
    then have "findDiagnostic Expected BufferName (I # rest) = Some 0"
      by (auto simp: spec_matches_def find_str_None_iff)
    moreover have "(k < length (I # rest) \<and> spec_matches Expected BufferName ((I # rest) ! k) \<and>
      (\<forall>j<k. \<not> spec_matches Expected BufferName ((I # rest) ! j))) = (k = 0)"
      using True by (cases k) auto
    ultimately show ?thesis by auto
  next
    case False
    then have eq: "findDiagnostic Expected BufferName (I # rest) =
        map_option Suc (findDiagnostic Expected BufferName rest)"
      by (auto simp: spec_matches_def find_str_None_iff)
    show ?thesis
    proof (cases k)
      case 0
      then show ?thesis using False eq by auto
    next
      case (Suc k')
      have "(\<forall>j<Suc k'. \<not> spec_matches Expected BufferName ((I # rest) ! j)) =
            (\<forall>j<k'. \<not> spec_matches Expected BufferName (rest ! j))"
        using False by (auto simp: less_Suc_eq_0_disj)
      then show ?thesis
        using Suc eq Cons.IH [of k'] by auto
    qed
  qed
qed


lemma filter_erase:
  "k < length xs \<Longrightarrow> \<not> P (xs ! k) \<Longrightarrow> filter P (erase xs k) = filter P xs"
proof -
  assume k: "k < length xs" and n: "\<not> P (xs ! k)"
  have "xs = take k xs @ xs ! k # drop (Suc k) xs"
    using k by (simp add: id_take_nth_drop)
  then have "filter P xs = filter P (take k xs) @ filter P (drop (Suc k) xs)"
    using n by (metis filter.simps(2) filter_append)
  then show ?thesis by (simp add: erase_def)
qed






lemma subseq_erase: "subseq (erase xs k) xs"
proof (cases "k < length xs")
  case True
  then have "xs = take k xs @ [xs ! k] @ drop (Suc k) xs"
    by (simp add: id_take_nth_drop)
  moreover have "subseq (take k xs @ drop (Suc k) xs) (take k xs @ [xs ! k] @ drop (Suc k) xs)"
    by (intro list_emb_append_mono list_emb_append2 subseq_order.order_refl)
  ultimately show ?thesis by (simp add: erase_def)
next
  case False
  then show ?thesis by (simp add: erase_def)
qed

lemma matchExpected_subseq:
  "matchExpected InputFile BufferName i ED CD Errs = Inr (ED', CD', Errs') \<Longrightarrow> subseq CD' CD"
proof (induction InputFile BufferName i ED CD Errs rule: matchExpected.induct)
  case (1 InputFile BufferName ED CD Errors)
  then show ?case by (simp add: matchExpected.simps)
next
  case (2 InputFile BufferName i ED CD Errors)
  show ?case
  proof (cases "findDiagnostic (ED ! i) BufferName CD")
    case None
    then show ?thesis using 2 by (auto simp: matchExpected.simps split: if_splits)
  next
    case (Some k)
    from 2 Some have "subseq CD' (erase CD k)"
      by (auto simp: matchExpected.simps split: sum.splits if_splits)
    then show ?thesis
      using subseq_erase [of CD k] by (rule subseq_order.order_trans)
  qed
qed

lemma matchExpected_found:
  assumes "findDiagnostic (ED ! i) BufferName CD = Some k"
    and "matchExpected InputFile BufferName (Suc i) ED CD Errs = Inr (ED', CD', Errs')"
  shows "subseq CD' (erase CD k)"
proof -
  have "matchExpected InputFile BufferName (Suc i) ED CD Errs =
          (case verifyFixits (Fixits (ED ! i)) (CD ! k) InputFile Errs of
             Inl e \<Rightarrow> Inl e
           | Inr Errors' \<Rightarrow>
               if mayAppear (ED ! i)
               then matchExpected InputFile BufferName (Suc i) ED (erase CD k) Errors'
               else matchExpected InputFile BufferName i (erase ED i) (erase CD k) Errors')"
    by (subst matchExpected.simps(2)) (simp only: assms(1) option.case)
  with assms(2) show ?thesis
    by (auto split: sum.splits if_splits dest: matchExpected_subseq)
qed

lemma verifyFixits_present:
  "\<forall>f\<in>set fs. checkForFixIt f D InputFile = Inr True \<Longrightarrow>
   verifyFixits fs D InputFile Errs = Inr Errs"
  by (induction fs) auto

lemma findDiagnostic_None_iff:
  "(findDiagnostic Expected BufferName CD = None) =
     (\<forall>D\<in>set CD. \<not> spec_matches Expected BufferName D)"
  by (induction CD) (auto simp: spec_matches_def find_str_None_iff)


lemma wildcard_step:
  assumes "mayAppear (ED ! i)"
    and "\<forall>D\<in>set CD. spec_matches (ED ! i) BufferName D \<longrightarrow>
           (\<forall>f\<in>set (Fixits (ED ! i)). checkForFixIt f D InputFile = Inr True)"
  shows "matchExpected InputFile BufferName (Suc i) ED CD Errs =
         matchExpected InputFile BufferName i (erase ED i)
           (filter (\<lambda>D. \<not> spec_matches (ED ! i) BufferName D) CD) Errs"
  using assms(2)
proof (induction "length CD" arbitrary: CD rule: less_induct)
  case less
  show ?case
  proof (cases "findDiagnostic (ED ! i) BufferName CD")
    case None
    then have "filter (\<lambda>D. \<not> spec_matches (ED ! i) BufferName D) CD = CD"
      by (simp add: findDiagnostic_None_iff)
    with None assms(1) show ?thesis by (subst matchExpected.simps(2)) simp
  next
    case (Some k)
    then have k: "k < length CD" and m: "spec_matches (ED ! i) BufferName (CD ! k)"
      by (simp_all add: findDiagnostic_Some_iff)
    then have "\<forall>f\<in>set (Fixits (ED ! i)). checkForFixIt f (CD ! k) InputFile = Inr True"
      using less.prems by simp
    then have v: "verifyFixits (Fixits (ED ! i)) (CD ! k) InputFile Errs = Inr Errs"
      by (rule verifyFixits_present)
    have sub: "set (erase CD k) \<subseteq> set CD"
      by (auto simp: erase_def dest: in_set_takeD in_set_dropD)
    have "matchExpected InputFile BufferName (Suc i) ED (erase CD k) Errs =
          matchExpected InputFile BufferName i (erase ED i)
            (filter (\<lambda>D. \<not> spec_matches (ED ! i) BufferName D) (erase CD k)) Errs"
    proof (rule less.hyps)
      show "length (erase CD k) < length CD" using k by (simp add: length_erase)
      show "\<forall>D\<in>set (erase CD k). spec_matches (ED ! i) BufferName D \<longrightarrow>
              (\<forall>f\<in>set (Fixits (ED ! i)). checkForFixIt f D InputFile = Inr True)"
        using less.prems sub by blast
    qed
    moreover have "filter (\<lambda>D. \<not> spec_matches (ED ! i) BufferName D) (erase CD k) =
                   filter (\<lambda>D. \<not> spec_matches (ED ! i) BufferName D) CD"
      using k m by (simp add: filter_erase)
    ultimately show ?thesis
      using Some v assms(1) by (subst matchExpected.simps(2)) simp
  qed
qed


lemma sublist_find_str: "sublist needle s = (find_str s needle 0 \<noteq> None)"
  by (simp add: find_str_None_iff)


lemma extended_message_matches:
  assumes "getFilename D = BufferName" "getLineNo D = sint (LineNo e)"
    "getKind D = Classification e" "getMessage D = MessageStr e @ ext"
    "\<forall>f\<in>set (Fixits e). checkForFixIt f D InputFile = Inr True"
  shows "matchDiagnostics InputFile BufferName [e] [D] [] = Inr ([], [])"
proof -
  have "sublist (MessageStr e) (getMessage D)"
    using assms(4) by (metis append_Nil sublist_appendI)
  then have f: "findDiagnostic e BufferName [D] = Some 0"
    using assms(1-3) by (simp add: find_str_None_iff)
  have v: "verifyFixits (Fixits e) D InputFile [] = Inr []"
    using assms(5) by (rule verifyFixits_present)
  have "matchExpected InputFile BufferName (Suc 0) [e] [D] [] = Inr ([], [], [])"
    using f v by (simp add: matchExpected.simps erase_def)
  then show ?thesis
    by (simp add: matchDiagnostics_def)
qed

lemma matchExpected_no_match:
  assumes "\<forall>D\<in>set CD. \<not> spec_matches (ED ! i) BufferName D"
  shows "matchExpected InputFile BufferName (Suc i) ED CD Errs =
         matchExpected InputFile BufferName i (if mayAppear (ED ! i) then erase ED i else ED) CD Errs"
proof -
  have "findDiagnostic (ED ! i) BufferName CD = None"
    using assms by (simp add: findDiagnostic_None_iff)
  then show ?thesis
    by (subst matchExpected.simps(2)) simp
qed

lemma matchExpected_match:
  assumes "k < length CD" and "spec_matches (ED ! i) BufferName (CD ! k)"
    and "\<forall>j<k. \<not> spec_matches (ED ! i) BufferName (CD ! j)"
  shows "matchExpected InputFile BufferName (Suc i) ED CD Errs =
         (case verifyFixits (Fixits (ED ! i)) (CD ! k) InputFile Errs of
            Inl x \<Rightarrow> Inl x
          | Inr Errs' \<Rightarrow>
              if mayAppear (ED ! i)
              then matchExpected InputFile BufferName (Suc i) ED (erase CD k) Errs'
              else matchExpected InputFile BufferName i (erase ED i) (erase CD k) Errs')"
proof -
  have "findDiagnostic (ED ! i) BufferName CD = Some k"
    using assms by (simp add: findDiagnostic_Some_iff)
  then show ?thesis
    by (subst matchExpected.simps(2)) (simp only: option.case)
qed

text \<open>
  Claim C1, as stated, fails in its last part: a diagnostic whose message extends the
  text of the expectation is matched, but the first loop then verifies the fix-it
  clauses of the expectation, and a clause the diagnostic does not carry is reported
  ("expected fix-it not seen").
\<close>

theorem extended_message_counterexample:
  "ExpectedDiagnostics (scanFrom (\<lambda>s. s)
      ''let x = 1 // expected-error {{type mismatch}} {{5-6=y}}'' 0
      \<lparr>Errors = [], PrevExpectedContinuationLine = 0, ExpectedDiagnostics = []\<rparr>)
   = [\<lparr>Loc = 13, Classification = DK_Error, mayAppear = False,
       MessageRange = (30, ''type mismatch''), MessageStr = ''type mismatch'', LineNo = 1,
       Fixits = [\<lparr>FixitLoc = 46, StartCol = 5, EndCol = 6, Text = ''y''\<rparr>]\<rparr>] \<and>
   findDiagnostic
       \<lparr>Loc = 13, Classification = DK_Error, mayAppear = False,
        MessageRange = (30, ''type mismatch''), MessageStr = ''type mismatch'', LineNo = 1,
        Fixits = [\<lparr>FixitLoc = 46, StartCol = 5, EndCol = 6, Text = ''y''\<rparr>]\<rparr>
       ''a.swift''
       [\<lparr>getFilename = ''a.swift'', getLineNo = 1, getKind = DK_Error,
         getMessage = ''type mismatch: Int vs String'', getLoc = 4, getFixIts = []\<rparr>] = Some 0 \<and>
   verifyFile (\<lambda>s. s) ''let x = 1 // expected-error {{type mismatch}} {{5-6=y}}'' ''a.swift''
     [\<lparr>getFilename = ''a.swift'', getLineNo = 1, getKind = DK_Error,
       getMessage = ''type mismatch: Int vs String'', getLoc = 4, getFixIts = []\<rparr>] False
   = Inr \<lparr>printed = [\<lparr>rLoc = 46, rMessage = ''expected fix-it not seen'', rFixIts = []\<rparr>],
          CapturedDiagnostics = [], written = None, returned = True\<rparr>"
  by code_simp


text \<open>
  Claim C1, amended. The search of the first loop returns the first captured diagnostic
  with the file identifier of the buffer, the line and the severity of the expectation,
  and a message that contains the decoded text; there is no other match. The first loop
  itself: with no expectation left to examine it returns the lists as they are; an
  expectation that no diagnostic of the pool matches stays in the list (or is dropped,
  with \<open>*\<close>) and the pool is untouched; an expectation that some diagnostic matches has
  its fix-it clauses verified against the first such diagnostic, which is then erased
  from the pool, for good: the pool returned is a subsequence of the pool without it.
  In particular an expectation whose text is extended by the message of the diagnostic
  is matched, and there is no report when the diagnostic carries each fix-it clause of
  the expectation.
\<close>

theorem phase1_substring_match:
  "((findDiagnostic Expected BufferName CD = Some k) =
      (k < length CD \<and> spec_matches Expected BufferName (CD ! k) \<and>
       (\<forall>j<k. \<not> spec_matches Expected BufferName (CD ! j)))) \<and>
   matchExpected InputFile BufferName 0 ED CD Errs = Inr (ED, CD, Errs) \<and>
   ((\<forall>D\<in>set CD. \<not> spec_matches (ED ! i) BufferName D) \<longrightarrow>
    matchExpected InputFile BufferName (Suc i) ED CD Errs =
      matchExpected InputFile BufferName i (if mayAppear (ED ! i) then erase ED i else ED)
        CD Errs) \<and>
   (k < length CD \<and> spec_matches (ED ! i) BufferName (CD ! k) \<and>
    (\<forall>j<k. \<not> spec_matches (ED ! i) BufferName (CD ! j)) \<longrightarrow>
    matchExpected InputFile BufferName (Suc i) ED CD Errs =
      (case verifyFixits (Fixits (ED ! i)) (CD ! k) InputFile Errs of
         Inl x \<Rightarrow> Inl x
       | Inr Errs1 \<Rightarrow>
           if mayAppear (ED ! i)
           then matchExpected InputFile BufferName (Suc i) ED (erase CD k) Errs1
           else matchExpected InputFile BufferName i (erase ED i) (erase CD k) Errs1)) \<and>
   (k < length CD \<and> spec_matches (ED ! i) BufferName (CD ! k) \<and>
    (\<forall>j<k. \<not> spec_matches (ED ! i) BufferName (CD ! j)) \<and>
    matchExpected InputFile BufferName (Suc i) ED CD Errs = Inr (ED', CD', Errs') \<longrightarrow>
    subseq CD' (erase CD k)) \<and>
   (getFilename D = BufferName \<and> getLineNo D = sint (LineNo e) \<and>
    getKind D = Classification e \<and> getMessage D = MessageStr e @ ext \<and>
    (\<forall>f\<in>set (Fixits e). checkForFixIt f D InputFile = Inr True) \<longrightarrow>
    matchDiagnostics InputFile BufferName [e] [D] [] = Inr ([], []))"
proof (intro conjI impI)
  show "(findDiagnostic Expected BufferName CD = Some k) =
      (k < length CD \<and> spec_matches Expected BufferName (CD ! k) \<and>
       (\<forall>j<k. \<not> spec_matches Expected BufferName (CD ! j)))"
    by (rule findDiagnostic_Some_iff)
  show "matchExpected InputFile BufferName 0 ED CD Errs = Inr (ED, CD, Errs)"
    by (simp add: matchExpected.simps)
  show "matchExpected InputFile BufferName (Suc i) ED CD Errs =
      matchExpected InputFile BufferName i (if mayAppear (ED ! i) then erase ED i else ED)
        CD Errs"
    if "\<forall>D\<in>set CD. \<not> spec_matches (ED ! i) BufferName D"
    using that by (rule matchExpected_no_match)
  show "matchExpected InputFile BufferName (Suc i) ED CD Errs =
      (case verifyFixits (Fixits (ED ! i)) (CD ! k) InputFile Errs of
         Inl x \<Rightarrow> Inl x
       | Inr Errs1 \<Rightarrow>
           if mayAppear (ED ! i)
           then matchExpected InputFile BufferName (Suc i) ED (erase CD k) Errs1
           else matchExpected InputFile BufferName i (erase ED i) (erase CD k) Errs1)"
    if "k < length CD \<and> spec_matches (ED ! i) BufferName (CD ! k) \<and>
        (\<forall>j<k. \<not> spec_matches (ED ! i) BufferName (CD ! j))"
    using that by (intro matchExpected_match) blast+
  show "subseq CD' (erase CD k)"
    if a: "k < length CD \<and> spec_matches (ED ! i) BufferName (CD ! k) \<and>
        (\<forall>j<k. \<not> spec_matches (ED ! i) BufferName (CD ! j)) \<and>
        matchExpected InputFile BufferName (Suc i) ED CD Errs = Inr (ED', CD', Errs')"
  proof -
    from a have "findDiagnostic (ED ! i) BufferName CD = Some k"
      by (simp add: findDiagnostic_Some_iff)
    moreover from a have
      "matchExpected InputFile BufferName (Suc i) ED CD Errs = Inr (ED', CD', Errs')" by blast
    ultimately show ?thesis by (rule matchExpected_found)
  qed
  show "matchDiagnostics InputFile BufferName [e] [D] [] = Inr ([], [])"
    if "getFilename D = BufferName \<and> getLineNo D = sint (LineNo e) \<and>
        getKind D = Classification e \<and> getMessage D = MessageStr e @ ext \<and>
        (\<forall>f\<in>set (Fixits e). checkForFixIt f D InputFile = Inr True)"
    using that by (intro extended_message_matches [where ext = ext]) blast+
qed

theorem phase1_substring_match_witness:
  "verifyFile (\<lambda>s. s) ''let x = 1 // expected-error {{type mismatch}}'' ''a.swift''
     [\<lparr>getFilename = ''a.swift'', getLineNo = 1, getKind = DK_Error,
       getMessage = ''type mismatch: Int vs String'', getLoc = 4, getFixIts = []\<rparr>] True
   = Inr \<lparr>printed = [], CapturedDiagnostics = [], written = None, returned = False\<rparr> \<and>
   matchExpected ''let x = 1 // expected-error {{type mismatch}}'' ''a.swift'' (Suc 0)
     [\<lparr>Loc = 13, Classification = DK_Error, mayAppear = False,
       MessageRange = (30, ''type mismatch''), MessageStr = ''type mismatch'',
       LineNo = 1, Fixits = []\<rparr>]
     [\<lparr>getFilename = ''a.swift'', getLineNo = 1, getKind = DK_Error,
       getMessage = ''type mismatch: Int vs String'', getLoc = 4, getFixIts = []\<rparr>] []
   = Inr ([], [], []) \<and>
   matchExpected ''let x = 1 // expected-error {{type mismatch}}'' ''a.swift'' (Suc 0)
     [\<lparr>Loc = 13, Classification = DK_Error, mayAppear = False,
       MessageRange = (30, ''type mismatch''), MessageStr = ''type mismatch'',
       LineNo = 1, Fixits = []\<rparr>]
     [\<lparr>getFilename = ''a.swift'', getLineNo = 1, getKind = DK_Error,
       getMessage = ''unrelated issue'', getLoc = 4, getFixIts = []\<rparr>] []
   = Inr ([\<lparr>Loc = 13, Classification = DK_Error, mayAppear = False,
            MessageRange = (30, ''type mismatch''), MessageStr = ''type mismatch'',
            LineNo = 1, Fixits = []\<rparr>],
          [\<lparr>getFilename = ''a.swift'', getLineNo = 1, getKind = DK_Error,
            getMessage = ''unrelated issue'', getLoc = 4, getFixIts = []\<rparr>], [])"
proof -
  let ?B = "''let x = 1 // expected-error {{type mismatch}}''"
  let ?e = "\<lparr>Loc = 13, Classification = DK_Error, mayAppear = False,
             MessageRange = (30, ''type mismatch''), MessageStr = ''type mismatch'',
             LineNo = 1, Fixits = []\<rparr>"
  let ?d = "\<lparr>getFilename = ''a.swift'', getLineNo = 1, getKind = DK_Error,
             getMessage = ''type mismatch: Int vs String'', getLoc = 4, getFixIts = []\<rparr>"
  let ?u = "\<lparr>getFilename = ''a.swift'', getLineNo = 1, getKind = DK_Error,
             getMessage = ''unrelated issue'', getLoc = 4, getFixIts = []\<rparr>"
  note t = phase1_substring_match
             [where InputFile = ?B and BufferName = "''a.swift''" and ED = "[?e]" and i = 0
                and Errs = "[]" and e = ?e and ext = "'': Int vs String''"]
  have scan: "scanFrom (\<lambda>s. s) ?B 0
                \<lparr>Errors = [], PrevExpectedContinuationLine = 0, ExpectedDiagnostics = []\<rparr>
              = \<lparr>Errors = [], PrevExpectedContinuationLine = 0, ExpectedDiagnostics = [?e]\<rparr>"
    by code_simp
  have base: "matchExpected ?B ''a.swift'' 0 ED CD [] = Inr (ED, CD, [])" for ED CD
    using phase1_substring_match
            [where InputFile = ?B and BufferName = "''a.swift''" and ED = ED and CD = CD
               and Errs = "[]", THEN conjunct2, THEN conjunct1] .
  have "sublist ''type mismatch'' ''type mismatch: Int vs String''"
    by (subst sublist_find_str) code_simp
  then have m: "spec_matches ?e ''a.swift'' ?d"
    by (simp add: spec_matches_def)
  have "\<not> sublist ''type mismatch'' ''unrelated issue''"
    by (subst sublist_find_str) code_simp
  then have n: "\<not> spec_matches ?e ''a.swift'' ?u"
    by (simp add: spec_matches_def)
  have all: "matchDiagnostics ?B ''a.swift'' [?e] [?d] [] = Inr ([], [])"
    using t [where D = ?d, THEN conjunct2, THEN conjunct2, THEN conjunct2, THEN conjunct2,
             THEN conjunct2]
    by simp
  have found: "matchExpected ?B ''a.swift'' (Suc 0) [?e] [?d] [] = Inr ([], [], [])"
    using t [where CD = "[?d]" and k = 0, THEN conjunct2, THEN conjunct2, THEN conjunct2,
             THEN conjunct1] m base
    by (simp add: erase_def)
  have missed: "matchExpected ?B ''a.swift'' (Suc 0) [?e] [?u] [] = Inr ([?e], [?u], [])"
    using t [where CD = "[?u]", THEN conjunct2, THEN conjunct2, THEN conjunct1] n base
    by simp
  from scan all have "verifyFile (\<lambda>s. s) ?B ''a.swift'' [?d] True
     = Inr \<lparr>printed = [], CapturedDiagnostics = [], written = None, returned = False\<rparr>"
    by (simp add: verifyFile_def autoApplyFixes_def)
  with found missed show ?thesis by simp
qed





text \<open>
  Claim C4, as stated, fails: a \<open>*\<close> expectation with a fix-it clause that the matched
  diagnostic lacks is reported ("expected fix-it not seen").
\<close>

theorem wildcard_counterexample:
  "map mayAppear (ExpectedDiagnostics (scanFrom (\<lambda>s. s) ''expected-error * {{m}} {{1-2=x}}'' 0
      \<lparr>Errors = [], PrevExpectedContinuationLine = 0, ExpectedDiagnostics = []\<rparr>)) = [True] \<and>
   verifyFile (\<lambda>s. s) ''expected-error * {{m}} {{1-2=x}}'' ''a.swift''
     [\<lparr>getFilename = ''a.swift'', getLineNo = 1, getKind = DK_Error,
       getMessage = ''m'', getLoc = 0, getFixIts = []\<rparr>] False
   = Inr \<lparr>printed = [\<lparr>rLoc = 23, rMessage = ''expected fix-it not seen'', rFixIts = []\<rparr>],
          CapturedDiagnostics = [], written = None, returned = True\<rparr>"
  by code_simp


text \<open>
  Claim C4, amended. When every captured diagnostic that a \<open>*\<close> expectation matches
  carries the fix-its of the expectation (in particular when it has none), processing
  it removes every matching diagnostic from the pool, however many, adds no report, and
  erases the expectation from the list before the second and third loops.
\<close>

theorem wildcard_consumes_all:
  assumes "mayAppear (ED ! i)"
    and "\<forall>D\<in>set CD. spec_matches (ED ! i) BufferName D \<longrightarrow>
           (\<forall>f\<in>set (Fixits (ED ! i)). checkForFixIt f D InputFile = Inr True)"
  shows "matchExpected InputFile BufferName (Suc i) ED CD Errs =
         matchExpected InputFile BufferName i (erase ED i)
           (filter (\<lambda>D. \<not> spec_matches (ED ! i) BufferName D) CD) Errs"
  using assms by (rule wildcard_step)

theorem wildcard_consumes_all_witness:
  "mayAppear (\<lparr>Loc = 0, Classification = DK_Error, mayAppear = True,
               MessageRange = (19, ''m''), MessageStr = ''m'', LineNo = 1, Fixits = []\<rparr>) \<and>
   matchDiagnostics ''expected-error * {{m}}'' ''a.swift''
     [\<lparr>Loc = 0, Classification = DK_Error, mayAppear = True,
       MessageRange = (19, ''m''), MessageStr = ''m'', LineNo = 1, Fixits = []\<rparr>]
     [\<lparr>getFilename = ''a.swift'', getLineNo = 1, getKind = DK_Error,
       getMessage = ''m'', getLoc = 0, getFixIts = []\<rparr>,
      \<lparr>getFilename = ''b.swift'', getLineNo = 1, getKind = DK_Error,
       getMessage = ''m'', getLoc = 0, getFixIts = []\<rparr>,
      \<lparr>getFilename = ''a.swift'', getLineNo = 1, getKind = DK_Error,
       getMessage = ''it is m again'', getLoc = 0, getFixIts = []\<rparr>] []
   = Inr ([\<lparr>getFilename = ''b.swift'', getLineNo = 1, getKind = DK_Error,
            getMessage = ''m'', getLoc = 0, getFixIts = []\<rparr>], [])"
proof -
  let ?e = "\<lparr>Loc = 0, Classification = DK_Error, mayAppear = True,
             MessageRange = (19, ''m''), MessageStr = ''m'', LineNo = 1, Fixits = []\<rparr>"
  let ?CD = "[\<lparr>getFilename = ''a.swift'', getLineNo = 1, getKind = DK_Error,
       getMessage = ''m'', getLoc = 0, getFixIts = []\<rparr>,
      \<lparr>getFilename = ''b.swift'', getLineNo = 1, getKind = DK_Error,
       getMessage = ''m'', getLoc = 0, getFixIts = []\<rparr>,
      \<lparr>getFilename = ''a.swift'', getLineNo = 1, getKind = DK_Error,
       getMessage = ''it is m again'', getLoc = 0, getFixIts = []\<rparr>]"
  have "matchExpected ''expected-error * {{m}}'' ''a.swift'' (Suc 0) [?e] ?CD [] =
        matchExpected ''expected-error * {{m}}'' ''a.swift'' 0 (erase [?e] 0)
          (filter (\<lambda>D. \<not> spec_matches ([?e] ! 0) ''a.swift'' D) ?CD) []"
    by (rule wildcard_consumes_all) simp_all
  then have "matchExpected ''expected-error * {{m}}'' ''a.swift'' (Suc 0) [?e] ?CD [] =
        Inr ([], [\<lparr>getFilename = ''b.swift'', getLineNo = 1, getKind = DK_Error,
            getMessage = ''m'', getLoc = 0, getFixIts = []\<rparr>], [])"
    by (simp add: matchExpected.simps erase_def spec_matches_def sublist_find_str find_str_def
                  startswith_def)
  then show ?thesis
    by (simp add: matchDiagnostics_def)
qed




subsection \<open>The scanner\<close>

text \<open>
  What the first part of the loop body does on the text of a plain annotation: a keyword,
  spaces or tabs, a count (or \<open>*\<close>), white space, and \<open>{{\<close>.
\<close>

lemma find_if_skip:
  "\<forall>c\<in>set pre. \<not> P c \<Longrightarrow> find_if P (pre @ ys) i = find_if P ys (i + length pre)"
  by (induction pre arbitrary: i) auto

lemma find_at_skip:
  "\<forall>c\<in>set pre. c \<noteq> a \<Longrightarrow>
   find_at (pre @ (a # as) @ rest) (a # as) i = Some (i + length pre)"
  by (induction pre arbitrary: i) (auto simp: startswith_def)

lemma find_first_not_of_text:
  assumes "set sp \<subseteq> set chars" and "t \<noteq> []" and "hd t \<notin> set chars"
  shows "find_first_not_of (sp @ t) chars = Some (length sp)"
proof -
  from assms(2) obtain c cs where t: "t = c # cs" by (cases t) auto
  have "find_if (\<lambda>x. x \<notin> set chars) (sp @ t) 0 = find_if (\<lambda>x. x \<notin> set chars) t (0 + length sp)"
    using assms(1) by (intro find_if_skip) auto
  then show ?thesis
    using t assms(3) by (simp add: find_first_not_of_def)
qed

lemma substr_buffer:
  "Match \<le> length InputFile \<Longrightarrow> substr (0, InputFile) Match = (Match, drop Match InputFile)"
  by (simp add: substr_def)

lemma matchClassification_text:
  assumes "(kw, kind) \<in> {(''expected-note'', DK_Note), (''expected-warning'', DK_Warning),
                          (''expected-error'', DK_Error)}"
  shows "matchClassification (off, kw @ t) = Some (kind, (off + length kw, t))"
  using assms by (auto simp: matchClassification_def startswith_def substr_def)

lemma ltrim_none:
  "t \<noteq> [] \<Longrightarrow> hd t \<notin> set chars \<Longrightarrow> ltrim chars (off, t) = (off, t)"
  by (cases t) (auto simp: ltrim_def)

lemma rtrim_text:
  assumes "set sp2 \<subseteq> set chars" and "cnt \<noteq> []" and "last cnt \<notin> set chars"
  shows "rtrim chars (off, cnt @ sp2) = (off, cnt)"
proof -
  have "dropWhile (\<lambda>c. c \<in> set chars) (rev sp2 @ rev cnt) = dropWhile (\<lambda>c. c \<in> set chars) (rev cnt)"
    using assms(1) by (intro dropWhile_append2) auto
  moreover have "dropWhile (\<lambda>c. c \<in> set chars) (rev cnt) = rev cnt"
    using assms(2,3) by (cases "rev cnt") (auto simp: last_rev [symmetric] hd_rev)
  ultimately show ?thesis
    by (simp add: rtrim_def)
qed

lemma trim_text:
  assumes "set sp2 \<subseteq> set chars" and "cnt \<noteq> []" and "\<forall>c\<in>set cnt. c \<notin> set chars"
  shows "trim chars (off, cnt @ sp2) = (off, cnt)"
proof -
  have "hd (cnt @ sp2) \<notin> set chars" "last cnt \<notin> set chars"
    using assms(2,3) by auto
  then show ?thesis
    using assms by (simp add: trim_def ltrim_none rtrim_text)
qed

lemma parseCount_text:
  assumes "cnt \<noteq> []" and "\<forall>c\<in>set cnt. c \<notin> set whitespace" and "set sp2 \<subseteq> set whitespace"
  shows "parseCount (off, cnt @ sp2 @ ''{{'' @ rest) (length cnt + length sp2) =
     (if cnt = ''*'' then Inr (True, 1, (off + length cnt + length sp2, ''{{'' @ rest))
      else (case getAsUnsigned cnt of
              None \<Rightarrow> Inl (off, ''expected match count before '' @ quoted ''{{'')
            | Some Count \<Rightarrow>
                if Count = 0
                then Inl (off, ''expected positive match count before '' @ quoted ''{{'')
                else Inr (False, Count, (off + length cnt + length sp2, ''{{'' @ rest))))"
proof -
  have "substr_n (off, cnt @ sp2 @ ''{{'' @ rest) 0 (length cnt + length sp2) = (off, cnt @ sp2)"
    by (simp add: substr_n_def)
  then have t: "trim whitespace (substr_n (off, cnt @ sp2 @ ''{{'' @ rest) 0 (length cnt + length sp2))
                = (off, cnt)"
    using assms by (simp add: trim_text)
  have s: "substr (off, cnt @ sp2 @ ''{{'' @ rest) (length cnt + length sp2)
           = (off + length cnt + length sp2, ''{{'' @ rest)"
    by (simp add: substr_def)
  have "0 < length cnt + length sp2" using assms(1) by simp
  then show ?thesis
    unfolding parseCount_def t s Let_def by (simp split: option.splits)
qed

lemma parseLineOffset_none:
  "t \<noteq> [] \<Longrightarrow> hd t \<noteq> CHR ''@'' \<Longrightarrow> parseLineOffset (off, t) n = Inr ((off, t), n, 0)"
  by (cases t) (auto simp: parseLineOffset_def)

lemma parseAnnotation_count:
  assumes buf: "drop Match InputFile = kw @ sp @ cnt @ sp2 @ ''{{'' @ rest"
    and kw: "(kw, kind) \<in> {(''expected-note'', DK_Note), (''expected-warning'', DK_Warning),
                            (''expected-error'', DK_Error)}"
    and sp: "set sp \<subseteq> set space_tab"
    and cnt: "cnt \<noteq> []" "\<forall>c\<in>set cnt. c \<notin> set whitespace \<and> c \<noteq> CHR ''{'' \<and> c \<noteq> CHR ''@''"
    and sp2: "set sp2 \<subseteq> set whitespace"
  shows "parseAnnotation InputFile Match =
     (case parseCount (Match + length kw + length sp, cnt @ sp2 @ ''{{'' @ rest)
             (length cnt + length sp2) of
        Inl (loc, message) \<Rightarrow> Malformed loc message
      | Inr (may, Count, MatchStart) \<Rightarrow>
          (case find_str (snd MatchStart) ''}}'' 0 of
             None \<Rightarrow> Malformed (fst MatchStart) noCloseMessageLine
           | Some End \<Rightarrow> Annotation kind 0 may Count MatchStart End))"
proof -
  let ?t = "cnt @ sp2 @ ''{{'' @ rest"
  have "kw \<noteq> []" using kw by auto
  with buf have "Match \<le> length InputFile"
    by (metis append_is_Nil_conv drop_all linear)
  then have a: "substr (0, InputFile) Match = (Match, kw @ sp @ ?t)"
    using buf by (simp add: substr_buffer)
  have b: "matchClassification (Match, kw @ sp @ ?t) = Some (kind, (Match + length kw, sp @ ?t))"
    using kw by (rule matchClassification_text)
  have hd: "hd ?t \<notin> set space_tab" "hd ?t \<noteq> CHR ''@''"
    using cnt by (cases cnt; auto simp: whitespace_def space_tab_def)+
  have ne: "?t \<noteq> []" using cnt by simp
  have c: "find_first_not_of (sp @ ?t) space_tab = Some (length sp)"
    using sp ne hd(1) by (rule find_first_not_of_text)
  have d: "substr_npos (Match + length kw, sp @ ?t) (Some (length sp))
           = (Match + length kw + length sp, ?t)"
    by (simp add: substr_npos_def substr_def)
  have "\<forall>c\<in>set (cnt @ sp2). c \<noteq> CHR ''{''"
    using cnt(2) sp2 by (auto simp: whitespace_def)
  then have "find_at ((cnt @ sp2) @ (CHR ''{'' # ''{'') @ rest) (CHR ''{'' # ''{'') 0
             = Some (0 + length (cnt @ sp2))"
    by (rule find_at_skip)
  then have e: "find_str ?t ''{{'' 0 = Some (length cnt + length sp2)"
    by (simp add: find_str_def)
  have f: "parseLineOffset (Match + length kw + length sp, ?t) (length cnt + length sp2)
           = Inr ((Match + length kw + length sp, ?t), length cnt + length sp2, 0)"
    using ne hd(2) by (rule parseLineOffset_none)
  show ?thesis
    unfolding parseAnnotation_def a b
    by (simp only: option.case prod.case c d e f Let_def snd_conv fst_conv sum.case)
qed

lemma digitsValue_zeros: "set zs \<subseteq> {CHR ''0''} \<Longrightarrow> digitsValue zs 0 = Some 0"
  by (induction zs) auto

lemma getAsUnsigned_zeros:
  "zs \<noteq> [] \<Longrightarrow> set zs \<subseteq> {CHR ''0''} \<Longrightarrow> getAsUnsigned zs = Some 0"
  by (simp add: getAsUnsigned_def getAsUnsignedInteger_def digitsValue_zeros)

lemma parseCount_zero:
  assumes "0 < TextStartIdx"
    and "getAsUnsigned (snd (trim whitespace (substr_n MatchStart 0 TextStartIdx))) = Some 0"
  shows "parseCount MatchStart TextStartIdx =
         Inl (fst MatchStart, ''expected positive match count before '' @ quoted ''{{'')"
proof -
  have "getAsUnsigned ''*'' = None"
    by (simp add: getAsUnsigned_def getAsUnsignedInteger_def)
  with assms(2) have "snd (trim whitespace (substr_n MatchStart 0 TextStartIdx)) \<noteq> ''*''"
    by auto
  with assms show ?thesis
    by (simp add: parseCount_def Let_def)
qed

lemma scanMatch_Malformed:
  "parseAnnotation InputFile Match = Malformed loc message \<Longrightarrow>
   scanMatch decode InputFile Match st =
     st\<lparr>Errors := Errors st @ [\<lparr>rLoc = loc, rMessage = message, rFixIts = []\<rparr>]\<rparr>"
  by (simp add: scanMatch_def addError_def)

lemma parseAnnotation_zero:
  assumes "matchClassification (substr (0, InputFile) Match) = Some (kind, MatchStart0)"
    and "MatchStart1 = substr_npos MatchStart0 (find_first_not_of (snd MatchStart0) space_tab)"
    and "find_str (snd MatchStart1) ''{{'' 0 = Some TextStartIdx0"
    and "parseLineOffset MatchStart1 TextStartIdx0 = Inr (MatchStart2, TextStartIdx, LineOffset)"
    and "0 < TextStartIdx"
    and "getAsUnsigned (snd (trim whitespace (substr_n MatchStart2 0 TextStartIdx))) = Some 0"
  shows "parseAnnotation InputFile Match =
         Malformed (fst MatchStart2) (''expected positive match count before '' @ quoted ''{{'')"
proof -
  have a3: "find_str (snd (substr_npos MatchStart0
              (find_first_not_of (snd MatchStart0) space_tab))) ''{{'' 0 = Some TextStartIdx0"
    using assms(2,3) by simp
  have a4: "parseLineOffset (substr_npos MatchStart0
              (find_first_not_of (snd MatchStart0) space_tab)) TextStartIdx0
            = Inr (MatchStart2, TextStartIdx, LineOffset)"
    using assms(2,4) by simp
  show ?thesis
    unfolding parseAnnotation_def Let_def
    by (simp only: assms(1) a3 a4 parseCount_zero [OF assms(5,6)] option.case prod.case sum.case)
qed

lemma zeros_text:
  assumes "zeros \<noteq> []" "set zeros \<subseteq> {CHR ''0''}"
  shows "\<forall>c\<in>set zeros. c \<notin> set whitespace \<and> c \<noteq> CHR ''{'' \<and> c \<noteq> CHR ''@''"
  using assms by (auto simp: whitespace_def)

lemma scanMatch_zero_text:
  assumes "drop Match InputFile = kw @ sp @ zeros @ sp2 @ ''{{'' @ rest"
    and "kw \<in> {''expected-note'', ''expected-warning'', ''expected-error''}"
    and "set sp \<subseteq> set space_tab"
    and "zeros \<noteq> []" "set zeros \<subseteq> {CHR ''0''}"
    and "set sp2 \<subseteq> set whitespace"
  shows "scanMatch decode InputFile Match st =
     st\<lparr>Errors := Errors st @
        [\<lparr>rLoc = Match + length kw + length sp,
          rMessage = ''expected positive match count before '' @ quoted ''{{'',
          rFixIts = []\<rparr>]\<rparr>"
proof -
  from assms(2) obtain kind where
    kw: "(kw, kind) \<in> {(''expected-note'', DK_Note), (''expected-warning'', DK_Warning),
                        (''expected-error'', DK_Error)}"
    by auto
  have z: "\<forall>c\<in>set zeros. c \<notin> set whitespace \<and> c \<noteq> CHR ''{'' \<and> c \<noteq> CHR ''@''"
    using assms(4,5) by (rule zeros_text)
  then have z': "\<forall>c\<in>set zeros. c \<notin> set whitespace" by simp
  have ns: "zeros \<noteq> ''*''" using assms(5) by auto
  have "parseCount (Match + length kw + length sp, zeros @ sp2 @ ''{{'' @ rest)
          (length zeros + length sp2) =
        Inl (Match + length kw + length sp,
             ''expected positive match count before '' @ quoted ''{{'')"
    using getAsUnsigned_zeros [OF assms(4,5)] ns
    by (subst parseCount_text [OF assms(4) z' assms(6)]) simp
  then have "parseAnnotation InputFile Match =
        Malformed (Match + length kw + length sp)
          (''expected positive match count before '' @ quoted ''{{'')"
    by (subst parseAnnotation_count [OF assms(1) kw assms(3,4) z assms(6)])
       (simp only: sum.case prod.case)
  then show ?thesis by (rule scanMatch_Malformed)
qed


text \<open>
  Claim C10. The scanner rejects a match count of 0 with the error "expected positive
  match count before '{{'", and for an annotation without a line offset it always does
  (\<open>scanMatch_zero_text\<close>). After a line offset the count is cut out of the text with
  \<^verbatim>\<open>Delta\<close>, the length of the offset text after its first space, measured on the text
  with the trailing white space trimmed, but applied to the text that still has it:
  with two spaces before \<open>{{\<close> the text taken as the count is empty, and the annotation
  with the count 0 gets the error of a missing count, "expected match count before
  '{{'". With one space before \<open>{{\<close>, or without the line offset, the same annotation
  gets the error the claim names.
\<close>

theorem zero_count_after_line_offset:
  "scanFrom (\<lambda>s. s) ''expected-error @+1 0  {{a}}'' 0
     \<lparr>Errors = [], PrevExpectedContinuationLine = 0, ExpectedDiagnostics = []\<rparr>
   = \<lparr>Errors = [\<lparr>rLoc = 20, rMessage = ''expected match count before '' @ quoted ''{{'',
                  rFixIts = []\<rparr>],
      PrevExpectedContinuationLine = 0, ExpectedDiagnostics = []\<rparr> \<and>
   scanFrom (\<lambda>s. s) ''expected-error @+1 0 {{a}}'' 0
     \<lparr>Errors = [], PrevExpectedContinuationLine = 0, ExpectedDiagnostics = []\<rparr>
   = \<lparr>Errors = [\<lparr>rLoc = 19,
                  rMessage = ''expected positive match count before '' @ quoted ''{{'',
                  rFixIts = []\<rparr>],
      PrevExpectedContinuationLine = 0, ExpectedDiagnostics = []\<rparr> \<and>
   scanFrom (\<lambda>s. s) ''expected-error 0  {{a}}'' 0
     \<lparr>Errors = [], PrevExpectedContinuationLine = 0, ExpectedDiagnostics = []\<rparr>
   = \<lparr>Errors = [\<lparr>rLoc = 15,
                  rMessage = ''expected positive match count before '' @ quoted ''{{'',
                  rFixIts = []\<rparr>],
      PrevExpectedContinuationLine = 0, ExpectedDiagnostics = []\<rparr>"
  by code_simp


lemma pushCopies_replicate: "pushCopies n e ED = ED @ replicate n e"
  by (induction n arbitrary: ED) (auto simp: replicate_app_Cons_same)

lemma find_if_ge: "find_if P s i = Some k \<Longrightarrow> i \<le> k"
  by (induction s arbitrary: i) (fastforce split: if_splits)+

lemma find_if_dropWhile:
  "(case find_if (\<lambda>x. x \<notin> set chars) s i of None \<Rightarrow> [] | Some k \<Rightarrow> drop (k - i) s)
   = dropWhile (\<lambda>c. c \<in> set chars) s"
proof (induction s arbitrary: i)
  case Nil
  then show ?case by simp
next
  case (Cons a s)
  show ?case
  proof (cases "a \<in> set chars")
    case False
    then show ?thesis by simp
  next
    case True
    show ?thesis
    proof (cases "find_if (\<lambda>x. x \<notin> set chars) s (Suc i)")
      case None
      then show ?thesis using True Cons.IH [of "Suc i"] by simp
    next
      case (Some k)
      then have "Suc i \<le> k" by (rule find_if_ge)
      then have "k - i = Suc (k - Suc i)" by simp
      then show ?thesis using True Some Cons.IH [of "Suc i"] by simp
    qed
  qed
qed

lemma skip_space_tab:
  "snd (substr_npos r (find_first_not_of (snd r) chars)) = dropWhile (\<lambda>c. c \<in> set chars) (snd r)"
  using find_if_dropWhile [where chars = chars and s = "snd r" and i = 0]
  by (auto simp: substr_npos_def substr_def find_first_not_of_def split: option.splits)

lemma continuationLine_text:
  "continuationLine MatchStart End Line =
     (if startswith (dropWhile (\<lambda>c. c \<in> set space_tab) (drop (End + 2) (snd MatchStart)))
           [CHR 0x5C]
      then Line else 0)"
  by (simp add: continuationLine_def Let_def skip_space_tab) (simp add: substr_def)

lemma scanMatch_Annotation:
  assumes "parseAnnotation InputFile Match = Annotation kind LineOffset may Count MatchStart End"
  shows "scanMatch decode InputFile Match st =
     (let Line = (if PrevExpectedContinuationLine st \<noteq> 0
                  then PrevExpectedContinuationLine st
                  else of_nat (getLineNumber InputFile (fst MatchStart))) + of_int LineOffset;
          Scanned = scanFixits (ltrim space_tab (substr MatchStart (End + 2))) (Errors st) []
      in \<lparr>Errors = fst Scanned,
          PrevExpectedContinuationLine = continuationLine MatchStart End Line,
          ExpectedDiagnostics =
            ExpectedDiagnostics st @
            replicate (unat Count)
              \<lparr>Loc = fst (substr (0, InputFile) Match),
               Classification = kind,
               mayAppear = may,
               MessageRange = slice MatchStart 2 End,
               MessageStr = decode (snd (slice MatchStart 2 End)),
               LineNo = Line,
               Fixits = snd Scanned\<rparr>\<rparr>)"
  using assms
  by (simp add: scanMatch_def Let_def pushCopies_replicate split: prod.splits)

lemma parseAnnotation_End:
  "parseAnnotation InputFile Match = Annotation kind LineOffset may Count MatchStart End \<Longrightarrow>
   find_str (snd MatchStart) ''}}'' 0 = Some End"
  by (auto simp: parseAnnotation_def Let_def split: option.splits sum.splits prod.splits)

lemma scanMatch_other:
  "\<forall>kind LineOffset may Count MatchStart End.
     parseAnnotation InputFile Match \<noteq> Annotation kind LineOffset may Count MatchStart End \<Longrightarrow>
   PrevExpectedContinuationLine (scanMatch decode InputFile Match st) =
     PrevExpectedContinuationLine st \<and>
   ExpectedDiagnostics (scanMatch decode InputFile Match st) = ExpectedDiagnostics st"
  by (cases "parseAnnotation InputFile Match") (auto simp: scanMatch_def)


text \<open>
  Claim C8, as stated, fails: the backslash is looked for directly after the \<open>}}\<close> of
  the message, before the fix-it clauses are scanned. An annotation with a fix-it clause
  and a backslash after it is no continuation anchor: the next annotation, on line 2,
  resolves to line 2.
\<close>

theorem continuation_counterexample:
  "map LineNo (ExpectedDiagnostics (scanFrom (\<lambda>s. s)
      (''f() // expected-error {{a}} {{1-2=x}} '' @ [CHR 0x5C, CHR 0x0A] @
       ''    // expected-note {{b}}'') 0
      \<lparr>Errors = [], PrevExpectedContinuationLine = 0, ExpectedDiagnostics = []\<rparr>)) = [1, 2] \<and>
   map Fixits (ExpectedDiagnostics (scanFrom (\<lambda>s. s)
      (''f() // expected-error {{a}} {{1-2=x}} '' @ [CHR 0x5C, CHR 0x0A] @
       ''    // expected-note {{b}}'') 0
      \<lparr>Errors = [], PrevExpectedContinuationLine = 0, ExpectedDiagnostics = []\<rparr>))
     = [[\<lparr>FixitLoc = 28, StartCol = 1, EndCol = 2, Text = ''x''\<rparr>], []] \<and>
   Errors (scanFrom (\<lambda>s. s)
      (''f() // expected-error {{a}} {{1-2=x}} '' @ [CHR 0x5C, CHR 0x0A] @
       ''    // expected-note {{b}}'') 0
      \<lparr>Errors = [], PrevExpectedContinuationLine = 0, ExpectedDiagnostics = []\<rparr>) = []"
  by code_simp


text \<open>
  Claim C8, amended. For an annotation that parses, \<open>End\<close> is where the \<open>}}\<close> of its
  message starts; if the text right after that \<open>}}\<close>, spaces and tabs skipped, begins
  with a backslash, the continuation line becomes the resolved line of this annotation,
  and otherwise 0. The resolved line is the continuation line handed in when that is not
  0 (and the line of the annotation's own position otherwise), plus the annotation's own
  line offset. An occurrence of \<open>expected-\<close> that does not parse leaves the continuation
  line as it was, so the line is inherited by the next annotation that parses.
\<close>

theorem continuation_after_message:
  "(parseAnnotation InputFile Match = Annotation kind LineOffset may Count MatchStart End \<longrightarrow>
    find_str (snd MatchStart) ''}}'' 0 = Some End \<and>
    (\<exists>e. LineNo e =
            (if PrevExpectedContinuationLine st \<noteq> 0 then PrevExpectedContinuationLine st
             else of_nat (getLineNumber InputFile (fst MatchStart))) + of_int LineOffset \<and>
          ExpectedDiagnostics (scanMatch decode InputFile Match st) =
            ExpectedDiagnostics st @ replicate (unat Count) e \<and>
          PrevExpectedContinuationLine (scanMatch decode InputFile Match st) =
            (if startswith
                  (dropWhile (\<lambda>c. c \<in> set space_tab) (drop (End + 2) (snd MatchStart)))
                  [CHR 0x5C]
             then LineNo e else 0))) \<and>
   ((\<forall>kind LineOffset may Count MatchStart End.
       parseAnnotation InputFile Match \<noteq> Annotation kind LineOffset may Count MatchStart End) \<longrightarrow>
    PrevExpectedContinuationLine (scanMatch decode InputFile Match st) =
      PrevExpectedContinuationLine st \<and>
    ExpectedDiagnostics (scanMatch decode InputFile Match st) = ExpectedDiagnostics st)"
proof (intro conjI impI)
  assume a: "parseAnnotation InputFile Match = Annotation kind LineOffset may Count MatchStart End"
  then show "find_str (snd MatchStart) ''}}'' 0 = Some End"
    by (rule parseAnnotation_End)
  show "\<exists>e. LineNo e =
            (if PrevExpectedContinuationLine st \<noteq> 0 then PrevExpectedContinuationLine st
             else of_nat (getLineNumber InputFile (fst MatchStart))) + of_int LineOffset \<and>
          ExpectedDiagnostics (scanMatch decode InputFile Match st) =
            ExpectedDiagnostics st @ replicate (unat Count) e \<and>
          PrevExpectedContinuationLine (scanMatch decode InputFile Match st) =
            (if startswith
                  (dropWhile (\<lambda>c. c \<in> set space_tab) (drop (End + 2) (snd MatchStart)))
                  [CHR 0x5C]
             then LineNo e else 0)"
  proof -
    define Line where "Line =
      (if PrevExpectedContinuationLine st \<noteq> 0 then PrevExpectedContinuationLine st
       else of_nat (getLineNumber InputFile (fst MatchStart))) + of_int LineOffset"
    define Scanned where "Scanned =
      scanFixits (ltrim space_tab (substr MatchStart (End + 2))) (Errors st) []"
    define e where "e =
      \<lparr>Loc = fst (substr (0, InputFile) Match), Classification = kind, mayAppear = may,
       MessageRange = slice MatchStart 2 End,
       MessageStr = decode (snd (slice MatchStart 2 End)),
       LineNo = Line, Fixits = snd Scanned\<rparr>"
    have s: "scanMatch decode InputFile Match st =
      \<lparr>Errors = fst Scanned,
       PrevExpectedContinuationLine = continuationLine MatchStart End Line,
       ExpectedDiagnostics = ExpectedDiagnostics st @ replicate (unat Count) e\<rparr>"
      unfolding scanMatch_Annotation [OF a] Let_def Line_def Scanned_def e_def ..
    have l: "LineNo e = Line" by (simp add: e_def)
    show ?thesis
      unfolding s Line_def [symmetric]
      by (rule exI [of _ e]) (simp add: l continuationLine_text)
  qed
next
  assume "\<forall>kind LineOffset may Count MatchStart End.
       parseAnnotation InputFile Match \<noteq> Annotation kind LineOffset may Count MatchStart End"
  then show "PrevExpectedContinuationLine (scanMatch decode InputFile Match st) =
      PrevExpectedContinuationLine st"
    and "ExpectedDiagnostics (scanMatch decode InputFile Match st) = ExpectedDiagnostics st"
    using scanMatch_other by blast+
qed


theorem continuation_after_message_witness:
  "parseAnnotation (''f() // expected-error {{a}} '' @ [CHR 0x5C, CHR 0x0A] @
                    ''    // expected-note {{b}}'') 7
     = Annotation DK_Error 0 False 1 (22, ''{{a}} '' @ [CHR 0x5C, CHR 0x0A] @
                    ''    // expected-note {{b}}'') 3 \<and>
   PrevExpectedContinuationLine (scanMatch (\<lambda>s. s)
      (''f() // expected-error {{a}} '' @ [CHR 0x5C, CHR 0x0A] @ ''    // expected-note {{b}}'') 7
      \<lparr>Errors = [], PrevExpectedContinuationLine = 0, ExpectedDiagnostics = []\<rparr>) = 1 \<and>
   map LineNo (ExpectedDiagnostics (scanFrom (\<lambda>s. s)
      (''f() // expected-error {{a}} '' @ [CHR 0x5C, CHR 0x0A] @ ''    // expected-note {{b}}'') 0
      \<lparr>Errors = [], PrevExpectedContinuationLine = 0, ExpectedDiagnostics = []\<rparr>)) = [1, 1]"
proof -
  let ?B = "''f() // expected-error {{a}} '' @ [CHR 0x5C, CHR 0x0A] @ ''    // expected-note {{b}}''"
  let ?st = "\<lparr>Errors = [], PrevExpectedContinuationLine = 0, ExpectedDiagnostics = []\<rparr>"
  have p: "parseAnnotation ?B 7 = Annotation DK_Error 0 False 1
             (22, ''{{a}} '' @ [CHR 0x5C, CHR 0x0A] @ ''    // expected-note {{b}}'') 3"
    by code_simp
  from continuation_after_message
         [where InputFile = ?B and Match = 7 and st = ?st and decode = "\<lambda>s. s",
          THEN conjunct1, THEN mp, OF p]
  have "PrevExpectedContinuationLine (scanMatch (\<lambda>s. s) ?B 7 ?st) = 1"
    by (auto simp: startswith_def space_tab_def getLineNumber_def)
  moreover have "map LineNo (ExpectedDiagnostics (scanFrom (\<lambda>s. s) ?B 0 ?st)) = [1, 1]"
    by code_simp
  ultimately show ?thesis using p by simp
qed

subsection \<open>Match counts\<close>

lemma digitsValue_digits:
  "digitsValue s acc = Some v \<Longrightarrow> \<forall>c\<in>set s. 48 \<le> (of_char c :: int) \<and> (of_char c :: int) \<le> 57"
  by (induction s arbitrary: acc) (auto simp: Let_def split: if_splits)

lemma getAsUnsigned_digits:
  assumes "getAsUnsigned s = Some N"
  shows "s \<noteq> []" and "\<forall>c\<in>set s. c \<notin> set whitespace \<and> c \<noteq> CHR ''{'' \<and> c \<noteq> CHR ''@''"
    and "s \<noteq> ''*''"
proof -
  from assms obtain v where v: "s \<noteq> []" "digitsValue s 0 = Some v"
    by (auto simp: getAsUnsigned_def getAsUnsignedInteger_def split: if_splits option.splits)
  then show "s \<noteq> []" by simp
  from digitsValue_digits [OF v(2)]
  show "\<forall>c\<in>set s. c \<notin> set whitespace \<and> c \<noteq> CHR ''{'' \<and> c \<noteq> CHR ''@''"
    by (auto simp: whitespace_def)
  from digitsValue_digits [OF v(2)] show "s \<noteq> ''*''" by auto
qed

lemma scanMatch_pushes:
  assumes "parseAnnotation InputFile Match = Annotation kind LineOffset may Count MatchStart End"
  shows "\<exists>e. mayAppear e = may \<and>
           ExpectedDiagnostics (scanMatch decode InputFile Match st) =
             ExpectedDiagnostics st @ replicate (unat Count) e"
proof -
  define Line where "Line =
    (if PrevExpectedContinuationLine st \<noteq> 0 then PrevExpectedContinuationLine st
     else of_nat (getLineNumber InputFile (fst MatchStart))) + of_int LineOffset"
  define Scanned where "Scanned =
    scanFixits (ltrim space_tab (substr MatchStart (End + 2))) (Errors st) []"
  define e where "e =
    \<lparr>Loc = fst (substr (0, InputFile) Match), Classification = kind, mayAppear = may,
     MessageRange = slice MatchStart 2 End,
     MessageStr = decode (snd (slice MatchStart 2 End)),
     LineNo = Line, Fixits = snd Scanned\<rparr>"
  have "scanMatch decode InputFile Match st =
    \<lparr>Errors = fst Scanned,
     PrevExpectedContinuationLine = continuationLine MatchStart End Line,
     ExpectedDiagnostics = ExpectedDiagnostics st @ replicate (unat Count) e\<rparr>"
    unfolding scanMatch_Annotation [OF assms] Let_def Line_def Scanned_def e_def ..
  moreover have "mayAppear e = may" by (simp add: e_def)
  ultimately show ?thesis by (intro exI [of _ e]) simp
qed

lemma scanMatch_count_text:
  assumes "drop Match InputFile = kw @ sp @ digits @ sp2 @ ''{{'' @ rest"
    and "kw \<in> {''expected-note'', ''expected-warning'', ''expected-error''}"
    and "set sp \<subseteq> set space_tab" and "set sp2 \<subseteq> set whitespace"
    and "getAsUnsigned digits = Some Count" and "Count \<noteq> 0"
    and "find_str (''{{'' @ rest) ''}}'' 0 = Some End"
  shows "\<exists>e. mayAppear e = False \<and>
           ExpectedDiagnostics (scanMatch decode InputFile Match st) =
             ExpectedDiagnostics st @ replicate (unat Count) e"
proof -
  from assms(2) obtain kind where
    kw: "(kw, kind) \<in> {(''expected-note'', DK_Note), (''expected-warning'', DK_Warning),
                        (''expected-error'', DK_Error)}"
    by auto
  note d = getAsUnsigned_digits [OF assms(5)]
  from d(2) have d': "\<forall>c\<in>set digits. c \<notin> set whitespace" by simp
  have "parseCount (Match + length kw + length sp, digits @ sp2 @ ''{{'' @ rest)
          (length digits + length sp2) =
        Inr (False, Count, (Match + length kw + length sp + length digits + length sp2,
                            ''{{'' @ rest))"
    using assms(5,6) d(3)
    by (subst parseCount_text [OF d(1) d' assms(4)]) simp
  then have "parseAnnotation InputFile Match =
        Annotation kind 0 False Count
          (Match + length kw + length sp + length digits + length sp2, ''{{'' @ rest) End"
    using assms(7)
    by (subst parseAnnotation_count [OF assms(1) kw assms(3) d(1,2) assms(4)])
       (simp only: sum.case prod.case snd_conv fst_conv option.case)
  then show ?thesis by (rule scanMatch_pushes)
qed

















subsection \<open>The fix applier\<close>

lemma applyFixIts_eq:
  "applyFixIts buffer fs LastPos Result =
     (if inOrderFrom LastPos fs then Inr (Result @ spec_rewrite buffer LastPos fs)
      else Inl AssertionFailed)"
  by (induction fs arbitrary: LastPos Result) auto

lemma inOrderFrom_nth:
  "inOrderFrom LastPos fs =
     ((fs \<noteq> [] \<longrightarrow> LastPos \<le> RangeStart (hd fs)) \<and>
      (\<forall>i. Suc i < length fs \<longrightarrow> RangeEnd (fs ! i) \<le> RangeStart (fs ! Suc i)))"
proof (induction fs arbitrary: LastPos)
  case Nil
  then show ?case by simp
next
  case (Cons f rest)
  show ?case
  proof (cases rest)
    case Nil
    then show ?thesis by simp
  next
    case (Cons g gs)
    have "(\<forall>i. Suc i < length (f # rest) \<longrightarrow>
             RangeEnd ((f # rest) ! i) \<le> RangeStart ((f # rest) ! Suc i)) =
          (RangeEnd f \<le> RangeStart g \<and>
           (\<forall>i. Suc i < length rest \<longrightarrow> RangeEnd (rest ! i) \<le> RangeStart (rest ! Suc i)))"
      (is "?L = ?R")
    proof
      assume l: ?L
      have "RangeEnd f \<le> RangeStart g" using l [rule_format, of 0] Cons by simp
      moreover have "\<forall>i. Suc i < length rest \<longrightarrow> RangeEnd (rest ! i) \<le> RangeStart (rest ! Suc i)"
      proof (intro allI impI)
        fix i assume "Suc i < length rest"
        then show "RangeEnd (rest ! i) \<le> RangeStart (rest ! Suc i)"
          using l [rule_format, of "Suc i"] by simp
      qed
      ultimately show ?R by simp
    next
      assume r: ?R
      show ?L
      proof (intro allI impI)
        fix i assume "Suc i < length (f # rest)"
        then show "RangeEnd ((f # rest) ! i) \<le> RangeStart ((f # rest) ! Suc i)"
          using r Cons by (cases i) auto
      qed
    qed
    then show ?thesis
      using Cons.IH [of "RangeEnd f"] Cons by simp
  qed
qed



lemma neighbours_chain:
  assumes adj: "\<forall>k. Suc k < length fs \<longrightarrow> RangeEnd (fs ! k) \<le> RangeStart (fs ! Suc k)"
    and wf: "\<forall>f\<in>set fs. RangeStart f \<le> RangeEnd f"
  shows "i < j \<Longrightarrow> j < length fs \<Longrightarrow> RangeEnd (fs ! i) \<le> RangeStart (fs ! j)"
proof (induction j)
  case 0
  then show ?case by simp
next
  case (Suc j)
  show ?case
  proof (cases "i = j")
    case True
    then show ?thesis using adj Suc.prems by simp
  next
    case False
    then have "RangeEnd (fs ! i) \<le> RangeStart (fs ! j)"
      using Suc by simp
    also have "\<dots> \<le> RangeEnd (fs ! j)"
      using wf Suc.prems by simp
    also have "\<dots> \<le> RangeStart (fs ! Suc j)"
      using adj Suc.prems by simp
    finally show ?thesis .
  qed
qed


text \<open>
  Claim C6. When, in the sorted list, a fix-it starts before the end of an earlier one,
  \<^verbatim>\<open>autoApplyFixes\<close> stops at the failed assertion and nothing is written. The assertion
  compares each fix-it with the one just before it; for the one just before it nothing
  more is needed, and for any earlier one it is enough that no fix-it ends before it
  starts (as is the case for the fix-its \<^verbatim>\<open>verifyFile\<close> builds).
\<close>

theorem overlapping_fixits_assert:
  assumes "Sorted = sort_key RangeStart (concat (map rFixIts diags))"
    and "i < j" and "j < length Sorted"
    and "RangeStart (Sorted ! j) < RangeEnd (Sorted ! i)"
    and "j = Suc i \<or> (\<forall>f\<in>set Sorted. RangeStart f \<le> RangeEnd f)"
  shows "autoApplyFixes buffer diags = Inl AssertionFailed"
proof -
  have ne: "concat (map rFixIts diags) \<noteq> []"
  proof
    assume "concat (map rFixIts diags) = []"
    with assms(1) have "Sorted = []" by (simp only: sort_key_simps)
    with assms(3) show False by simp
  qed
  have "\<not> (\<forall>k. Suc k < length Sorted \<longrightarrow>
              RangeEnd (Sorted ! k) \<le> RangeStart (Sorted ! Suc k))"
  proof
    assume adj: "\<forall>k. Suc k < length Sorted \<longrightarrow>
                   RangeEnd (Sorted ! k) \<le> RangeStart (Sorted ! Suc k)"
    from assms(5) have "RangeEnd (Sorted ! i) \<le> RangeStart (Sorted ! j)"
    proof
      assume "j = Suc i"
      then show ?thesis using adj assms(3) by simp
    next
      assume "\<forall>f\<in>set Sorted. RangeStart f \<le> RangeEnd f"
      with adj show ?thesis using assms(2,3) by (rule neighbours_chain)
    qed
    with assms(4) show False by simp
  qed
  then have "\<not> inOrderFrom 0 Sorted"
    by (simp add: inOrderFrom_nth)
  with ne assms(1) show ?thesis
    by (simp add: autoApplyFixes_def Let_def applyFixIts_eq)
qed


theorem overlapping_fixits_assert_witness:
  "(0 :: nat) < 1 \<and>
   1 < length (sort_key RangeStart (concat (map rFixIts
      [\<lparr>rLoc = 6, rMessage = ''incorrect message found'',
        rFixIts = [\<lparr>RangeStart = 6, RangeEnd = 8, getText = ''XY''\<rparr>]\<rparr>,
       \<lparr>rLoc = 1, rMessage = ''incorrect message found'',
        rFixIts = [\<lparr>RangeStart = 1, RangeEnd = 7, getText = ''''\<rparr>]\<rparr>]))) \<and>
   autoApplyFixes ''0123456789''
      [\<lparr>rLoc = 6, rMessage = ''incorrect message found'',
        rFixIts = [\<lparr>RangeStart = 6, RangeEnd = 8, getText = ''XY''\<rparr>]\<rparr>,
       \<lparr>rLoc = 1, rMessage = ''incorrect message found'',
        rFixIts = [\<lparr>RangeStart = 1, RangeEnd = 7, getText = ''''\<rparr>]\<rparr>]
   = Inl AssertionFailed"
  using overlapping_fixits_assert [of
      "[\<lparr>RangeStart = 1, RangeEnd = 7, getText = ''''\<rparr>, \<lparr>RangeStart = 6, RangeEnd = 8, getText = ''XY''\<rparr>]"
      "[\<lparr>rLoc = 6, rMessage = ''incorrect message found'',
        rFixIts = [\<lparr>RangeStart = 6, RangeEnd = 8, getText = ''XY''\<rparr>]\<rparr>,
       \<lparr>rLoc = 1, rMessage = ''incorrect message found'',
        rFixIts = [\<lparr>RangeStart = 1, RangeEnd = 7, getText = ''''\<rparr>]\<rparr>]" 0 1 "''0123456789''"]
  by simp

subsection \<open>The column mapper\<close>

text \<open>
  With no \<open>\r\<close> or \<open>\n\<close> before the offset the result is the offset itself, the number
  of bytes before it on the line; after one, it is that number plus one.
\<close>

lemma find_if_None: "\<forall>c\<in>set s. \<not> P c \<Longrightarrow> find_if P s i = None"
  by (induction s arbitrary: i) auto

lemma getColumnNumber_no_newline:
  assumes "off \<le> length buffer"
    and "\<forall>c\<in>set (take off buffer). c \<noteq> CHR 0x0D \<and> c \<noteq> CHR 0x0A"
  shows "getColumnNumber buffer off = Inr (of_nat off)"
proof -
  have "find_if (\<lambda>x. x \<in> set [CHR 0x0D, CHR 0x0A]) (rev (take off buffer)) 0 = None"
    using assms(2) by (intro find_if_None) auto
  then show ?thesis
    using assms(1) by (simp add: getColumnNumber_def slice_def find_last_of_def)
qed

lemma getColumnNumber_after_newline:
  assumes "buffer = pre @ [nl] @ line @ rest"
    and "nl = CHR 0x0D \<or> nl = CHR 0x0A"
    and "\<forall>c\<in>set line. c \<noteq> CHR 0x0D \<and> c \<noteq> CHR 0x0A"
  shows "getColumnNumber buffer (length pre + 1 + length line) = Inr (of_nat (length line + 1))"
proof -
  have t: "take (length pre + 1 + length line) buffer = pre @ [nl] @ line"
    using assms(1) by simp
  have "find_if (\<lambda>x. x \<in> set [CHR 0x0D, CHR 0x0A]) (rev line @ nl # rev pre) 0 =
        find_if (\<lambda>x. x \<in> set [CHR 0x0D, CHR 0x0A]) (nl # rev pre) (0 + length (rev line))"
    using assms(3) by (intro find_if_skip) auto
  then have f: "find_if (\<lambda>x. x \<in> set [CHR 0x0D, CHR 0x0A]) (rev (pre @ [nl] @ line)) 0 =
        Some (length line)"
    using assms(2) by auto
  have "length pre + 1 + length line \<le> length buffer"
    using assms(1) by simp
  then show ?thesis
    unfolding getColumnNumber_def slice_def find_last_of_def Let_def
    using t f by simp
qed


text \<open>
  Claim C7. After a newline \<^verbatim>\<open>getColumnNumber\<close> returns the 1-based column (offset 3
  of \<open>ab\<newline>cd\<close>, the first byte of the second line, is column 1), but with no newline
  before the offset it returns the offset itself: the first byte of the buffer is column
  0 and the third is column 2, one less than the 1-based column.
\<close>

theorem getColumnNumber_first_line:
  "getColumnNumber ''abc'' 0 = Inr 0 \<and> getColumnNumber ''abc'' 2 = Inr 2 \<and>
   getColumnNumber (''ab'' @ [CHR 0x0A] @ ''cd'') 3 = Inr 1"
  by (simp add: getColumnNumber_def slice_def find_last_of_def)

end
